theory Spec2Isabelle
  imports Main
begin

section \<open>Git-Cheat: the commit date assigner\<close>

text \<open>
  The repository holds two scripts, \<^verbatim>\<open>gitcheat.py\<close> and \<^verbatim>\<open>git_transfer_fixed.py\<close>.
  Both define the same function \<^verbatim>\<open>generate_random_date_range\<close>; their
  \<^verbatim>\<open>transfer_repo\<close> functions differ in how the generated dates are bound to the
  commits. This theory embeds the date generator and the date-modification step of both
  \<^verbatim>\<open>transfer_repo\<close> functions.
\<close>

subsection \<open>Exceptions\<close>

text \<open>
  The exceptions the embedded code can raise. A function that can raise returns a sum, with
  the exception on the left.
\<close>

datatype error = ValueError | OverflowError

definition result :: "error + ('a \<times> 's) \<Rightarrow> error + 'a" where
  "result r = (case r of Inl e \<Rightarrow> Inl e | Inr (x, s) \<Rightarrow> Inr x)"

subsection \<open>Dates, durations and the random source\<close>

text \<open>
  A naive \<^verbatim>\<open>datetime\<close> has second resolution here (every value the scripts build is a
  whole number of seconds). It is modelled as the day number of its calendar day (the
  proleptic Gregorian ordinal: 1 is 0001-01-01, 737425 is 2020-01-01, 3652059 is
  9999-12-31) times 86400, plus the second of the day. Python's \<^verbatim>\<open>datetime\<close> ends with
  the year 9999: an addition whose result lies outside the years 1 to 9999 raises
  \<^verbatim>\<open>OverflowError\<close>. A \<^verbatim>\<open>timedelta\<close> is an integer number of seconds.

  The two input strings are calendar days in the form \<^verbatim>\<open>%Y-%m-%d\<close>; the model takes the
  day number in place of the string (the days that can be written so have the numbers 1 to
  3652059), and \<^verbatim>\<open>datetime.strptime\<close> is the midnight that starts that day.
\<close>

type_synonym datetime = int
type_synonym timedelta = int

definition strptime :: "int \<Rightarrow> datetime" where
  "strptime day = day * 86400"

definition datetime_ok :: "datetime \<Rightarrow> bool" where
  "datetime_ok t = (86400 \<le> t \<and> t < 315537984000)"

definition timedelta :: "int \<Rightarrow> int \<Rightarrow> timedelta" where
  "timedelta ds secs = ds * 86400 + secs"

definition days :: "timedelta \<Rightarrow> int" where
  "days td = td div 86400"

definition datetime_add :: "datetime \<Rightarrow> timedelta \<Rightarrow> error + datetime" where
  "datetime_add t td = (if datetime_ok (t + td) then Inr (t + td) else Inl OverflowError)"

text \<open>
  The \<^verbatim>\<open>random\<close> module is a source of raw draws, consumed one after the other.
  \<^verbatim>\<open>random.randint(a, b)\<close> returns an integer \<open>N\<close> with \<open>a \<le> N \<le> b\<close>; the model reduces
  the next raw draw into that range, so every integer of the range is the result for some
  raw draw and no other integer is. (Python raises \<^verbatim>\<open>ValueError\<close> when \<open>b < a\<close>; the
  generator only calls it with \<open>a \<le> b\<close>, see \<open>days_time_diff_pos\<close>.)
\<close>

type_synonym rng = "nat \<Rightarrow> nat"

definition randint :: "int \<Rightarrow> int \<Rightarrow> rng \<Rightarrow> int \<times> rng" where
  "randint a b g = (a + int (g 0) mod (b - a + 1), \<lambda>n. g (Suc n))"

definition rng_of :: "nat list \<Rightarrow> rng" where
  "rng_of raws = (\<lambda>n. if n < length raws then raws ! n else 0)"

text \<open>The records the scripts hand to \<^verbatim>\<open>logging\<close> in the code embedded here.\<close>

datatype log_record =
    Info_modifying_dates int int
  | Error_start_before_end
  | Warning_count_mismatch nat nat

record world =
  rng :: rng
  log :: "log_record list"

subsection \<open>\<^verbatim>\<open>generate_random_date_range\<close> (both scripts)\<close>

text \<open>
  The body of the \<^verbatim>\<open>for _ in range(num_commits)\<close> loop draws the day offset, then the
  second offset, and appends \<^verbatim>\<open>start + timedelta(days=..., seconds=...)\<close>; when that
  addition raises, the loop and the function end with the exception.
\<close>

fun dates_loop :: "nat \<Rightarrow> datetime \<Rightarrow> timedelta \<Rightarrow> datetime list \<Rightarrow> rng \<Rightarrow> error + (datetime list \<times> rng)" where
  "dates_loop 0 start time_diff dates g = Inr (dates, g)"
| "dates_loop (Suc k) start time_diff dates g =
     (let (random_days, g1) = randint 0 (days time_diff) g;
          (random_seconds, g2) = randint 0 86400 g1
      in case datetime_add start (timedelta random_days random_seconds) of
           Inl e \<Rightarrow> Inl e
         | Inr random_date \<Rightarrow> dates_loop k start time_diff (dates @ [random_date]) g2)"

text \<open>
  \<^verbatim>\<open>range(num_commits)\<close> is empty for a negative count. \<^verbatim>\<open>dates.sort()\<close> is the
  library's sort of the list in ascending order.
\<close>

definition generate_random_date_range :: "int \<Rightarrow> int \<Rightarrow> int \<Rightarrow> world \<Rightarrow> error + (datetime list \<times> world)" where
  "generate_random_date_range start_date end_date num_commits w =
     (let start = strptime start_date;
          end_dt = strptime end_date
      in if start \<ge> end_dt
         then Inr ([], w\<lparr>log := log w @ [Error_start_before_end]\<rparr>)
         else
           (let time_diff = end_dt - start
            in case dates_loop (nat num_commits) start time_diff [] (rng w) of
                 Inl e \<Rightarrow> Inl e
               | Inr (dates, g) \<Rightarrow> Inr (sort dates, w\<lparr>rng := g\<rparr>)))"

text \<open>
  The candidate of iteration \<open>i\<close> written out: it uses the raw draws \<open>2 * i\<close> and
  \<open>2 * i + 1\<close> of the source. \<open>candidates_ok\<close> says that the first \<open>k\<close> candidates are
  all within the range of \<^verbatim>\<open>datetime\<close>.
\<close>

definition day_offset :: "timedelta \<Rightarrow> rng \<Rightarrow> nat \<Rightarrow> int" where
  "day_offset time_diff g i = int (g (2 * i)) mod (days time_diff + 1)"

definition second_offset :: "rng \<Rightarrow> nat \<Rightarrow> int" where
  "second_offset g i = int (g (2 * i + 1)) mod 86401"

definition candidate :: "datetime \<Rightarrow> timedelta \<Rightarrow> rng \<Rightarrow> nat \<Rightarrow> datetime" where
  "candidate start time_diff g i =
     start + timedelta (day_offset time_diff g i) (second_offset g i)"

definition candidates_ok :: "datetime \<Rightarrow> timedelta \<Rightarrow> rng \<Rightarrow> nat \<Rightarrow> bool" where
  "candidates_ok start time_diff g k =
     list_all (\<lambda>i. datetime_ok (candidate start time_diff g i)) [0..<k]"

subsection \<open>The date-modification step of \<^verbatim>\<open>transfer_repo\<close>\<close>

text \<open>
  Commit identifiers are the lines of \<^verbatim>\<open>git log --all --format='%H' --reverse\<close>, oldest
  first. \<^verbatim>\<open>int(d.timestamp())\<close> converts a naive local datetime to POSIX seconds; the
  conversion depends on the time zone of the machine and raises for datetimes it cannot
  convert, so it is a parameter \<open>ts\<close> that returns the seconds or the exception. Two
  machines are written out. On a machine in UTC the conversion subtracts the seconds from
  0001-01-01 to 1970-01-01 and raises \<^verbatim>\<open>ValueError\<close> for the datetimes of the day
  0001-01-01. On a machine in the zone America/New_York the clocks went from 02:00 to 03:00
  on 2020-03-08: a naive datetime before 03:00 of that day is read with the offset of five
  hours and a later one with the offset of four hours; \<open>timestamp_new_york\<close> is that
  conversion for the naive datetimes of January to October 2020, and it is applied to
  datetimes of 2020-03-08 only.

  An exception raised in the step reaches the \<^verbatim>\<open>except Exception\<close> clause of
  \<^verbatim>\<open>transfer_repo\<close>, which logs it and ends the process with status 1 before the history
  is rewritten: the step returns the exception.

  \<^verbatim>\<open>gitcheat.py\<close> writes one clause of a shell \<^verbatim>\<open>case $GIT_COMMIT in\<close> per commit that has
  a date; the clauses are kept as a list in the order written, and the shell runs the first
  clause whose pattern matches.
\<close>

type_synonym commit = string

definition timestamp_utc :: "datetime \<Rightarrow> error + int" where
  "timestamp_utc t = (if 172800 \<le> t then Inr (t - 62135683200) else Inl ValueError)"

definition timestamp_new_york :: "datetime \<Rightarrow> error + int" where
  "timestamp_new_york t =
     (if t < 63719319600 then Inr (t - 62135683200 + 18000) else Inr (t - 62135683200 + 14400))"

fun env_filter_loop :: "(datetime \<Rightarrow> error + int) \<Rightarrow> nat \<Rightarrow> commit list \<Rightarrow> datetime list \<Rightarrow> (commit \<times> int) list \<Rightarrow> error + (commit \<times> int) list" where
  "env_filter_loop ts i [] random_dates env_filter = Inr env_filter"
| "env_filter_loop ts i (c # commits) random_dates env_filter =
     (if i < length random_dates
      then (case ts (random_dates ! i) of
              Inl e \<Rightarrow> Inl e
            | Inr timestamp \<Rightarrow>
                env_filter_loop ts (Suc i) commits random_dates (env_filter @ [(c, timestamp)]))
      else env_filter_loop ts (Suc i) commits random_dates env_filter)"

definition transfer_repo_dates :: "(datetime \<Rightarrow> error + int) \<Rightarrow> int \<Rightarrow> int \<Rightarrow> int \<Rightarrow> commit list \<Rightarrow> world \<Rightarrow> error + ((commit \<times> int) list \<times> world)" where
  "transfer_repo_dates ts start_date end_date commit_count commits w =
     (let w0 = w\<lparr>log := log w @ [Info_modifying_dates start_date end_date]\<rparr>
      in case generate_random_date_range start_date end_date commit_count w0 of
           Inl e \<Rightarrow> Inl e
         | Inr (random_dates, w1) \<Rightarrow>
             (case env_filter_loop ts 0 commits random_dates [] of
                Inl e \<Rightarrow> Inl e
              | Inr env_filter \<Rightarrow> Inr (env_filter, w1)))"

text \<open>
  \<^verbatim>\<open>git_transfer_fixed.py\<close> compares the two lengths first, warns when they differ and
  generates the dates again when there are more commits than dates; then it fills the
  dictionary \<^verbatim>\<open>commit_date_map\<close>.
\<close>

fun commit_date_map_loop :: "(datetime \<Rightarrow> error + int) \<Rightarrow> nat \<Rightarrow> commit list \<Rightarrow> datetime list \<Rightarrow> (commit \<rightharpoonup> int) \<Rightarrow> error + (commit \<rightharpoonup> int)" where
  "commit_date_map_loop ts i [] random_dates commit_date_map = Inr commit_date_map"
| "commit_date_map_loop ts i (c # commits) random_dates commit_date_map =
     (if i < length random_dates
      then (case ts (random_dates ! i) of
              Inl e \<Rightarrow> Inl e
            | Inr timestamp \<Rightarrow>
                commit_date_map_loop ts (Suc i) commits random_dates
                  (commit_date_map(c \<mapsto> timestamp)))
      else commit_date_map_loop ts (Suc i) commits random_dates commit_date_map)"

definition adjust_dates :: "int \<Rightarrow> int \<Rightarrow> commit list \<Rightarrow> datetime list \<Rightarrow> world \<Rightarrow> error + (datetime list \<times> world)" where
  "adjust_dates start_date end_date commits random_dates w =
     (if length commits \<noteq> length random_dates
      then
        (let w' = w\<lparr>log := log w @ [Warning_count_mismatch (length commits) (length random_dates)]\<rparr>
         in if length commits > length random_dates
            then generate_random_date_range start_date end_date (int (length commits)) w'
            else Inr (random_dates, w'))
      else Inr (random_dates, w))"

definition transfer_repo_dates_fixed :: "(datetime \<Rightarrow> error + int) \<Rightarrow> int \<Rightarrow> int \<Rightarrow> int \<Rightarrow> commit list \<Rightarrow> world \<Rightarrow> error + ((commit \<rightharpoonup> int) \<times> world)" where
  "transfer_repo_dates_fixed ts start_date end_date commit_count commits w =
     (let w0 = w\<lparr>log := log w @ [Info_modifying_dates start_date end_date]\<rparr>
      in case generate_random_date_range start_date end_date commit_count w0 of
           Inl e \<Rightarrow> Inl e
         | Inr (random_dates, w1) \<Rightarrow>
             (case adjust_dates start_date end_date commits random_dates w1 of
                Inl e \<Rightarrow> Inl e
              | Inr (random_dates', w2) \<Rightarrow>
                  (case commit_date_map_loop ts 0 commits random_dates' Map.empty of
                     Inl e \<Rightarrow> Inl e
                   | Inr commit_date_map \<Rightarrow> Inr (commit_date_map, w2))))"

section \<open>Properties of the generator\<close>

lemma days_time_diff_pos:
  "start_date < end_date \<Longrightarrow> 1 \<le> days (strptime end_date - strptime start_date)"
proof -
  assume "start_date < end_date"
  then have "1 \<le> end_date - start_date" by simp
  moreover have "strptime end_date - strptime start_date = (end_date - start_date) * 86400"
    by (simp add: strptime_def algebra_simps)
  ultimately show ?thesis by (simp add: days_def)
qed

lemma days_time_diff:
  "days (strptime end_date - strptime start_date) = end_date - start_date"
proof -
  have "strptime end_date - strptime start_date = (end_date - start_date) * 86400"
    by (simp add: strptime_def algebra_simps)
  then show ?thesis by (simp add: days_def)
qed

lemma randint_range:
  assumes "a \<le> b"
  shows "a \<le> fst (randint a b g)" and "fst (randint a b g) \<le> b"
proof -
  have pos: "0 < b - a + 1" using assms by simp
  have "0 \<le> int (g 0) mod (b - a + 1)" using pos by simp
  then show "a \<le> fst (randint a b g)" by (simp add: randint_def)
  have "int (g 0) mod (b - a + 1) < b - a + 1" using pos by (rule pos_mod_bound)
  then show "fst (randint a b g) \<le> b" by (simp add: randint_def)
qed

lemma randint_attains:
  assumes "a \<le> n" and "n \<le> b"
  shows "fst (randint a b (\<lambda>_. nat (n - a))) = n"
  using assms by (simp add: randint_def)

lemma candidates_ok_iff:
  "candidates_ok start time_diff g k = (\<forall>i<k. datetime_ok (candidate start time_diff g i))"
  by (auto simp: candidates_ok_def list_all_iff)

lemma dates_loop_eq:
  "dates_loop k start time_diff dates g =
     (if candidates_ok start time_diff g k
      then Inr (dates @ map (candidate start time_diff g) [0..<k], \<lambda>n. g (n + 2 * k))
      else Inl OverflowError)"
proof (induction k arbitrary: dates g)
  case 0
  show ?case by (simp add: candidates_ok_iff)
next
  case (Suc k)
  let ?g2 = "\<lambda>n. g (Suc (Suc n))"
  let ?c0 = "candidate start time_diff g 0"
  have shift: "candidate start time_diff ?g2 i = candidate start time_diff g (Suc i)" for i
    by (simp add: candidate_def day_offset_def second_offset_def)
  have first: "start + timedelta (int (g 0) mod (days time_diff + 1)) (int (g (Suc 0)) mod 86401) = ?c0"
    by (simp add: candidate_def day_offset_def second_offset_def)
  have ok_Suc: "candidates_ok start time_diff g (Suc k)
      = (datetime_ok ?c0 \<and> candidates_ok start time_diff ?g2 k)"
    by (simp only: candidates_ok_iff All_less_Suc2 shift)
  have "map (candidate start time_diff ?g2) [0..<k] = map (candidate start time_diff g) (map Suc [0..<k])"
    by (simp add: shift)
  also have "\<dots> = map (candidate start time_diff g) [Suc 0..<Suc k]"
    by (simp only: map_Suc_upt)
  finally have tl: "map (candidate start time_diff ?g2) [0..<k] = map (candidate start time_diff g) [Suc 0..<Suc k]" .
  have upt: "[0..<Suc k] = 0 # [Suc 0..<Suc k]"
    by (simp add: upt_conv_Cons)
  have step: "dates_loop (Suc k) start time_diff dates g
      = (if datetime_ok ?c0 then dates_loop k start time_diff (dates @ [?c0]) ?g2
         else Inl OverflowError)"
    by (simp add: randint_def datetime_add_def first)
  show ?case
  proof (cases "datetime_ok ?c0")
    case False
    then show ?thesis by (simp only: step ok_Suc) simp
  next
    case True
    have "dates_loop (Suc k) start time_diff dates g
        = dates_loop k start time_diff (dates @ [?c0]) ?g2"
      using True by (simp only: step if_True)
    also have "\<dots> = (if candidates_ok start time_diff ?g2 k
          then Inr ((dates @ [?c0]) @ map (candidate start time_diff ?g2) [0..<k], \<lambda>n. ?g2 (n + 2 * k))
          else Inl OverflowError)"
      by (rule Suc.IH)
    also have "\<dots> = (if candidates_ok start time_diff g (Suc k)
          then Inr (dates @ map (candidate start time_diff g) [0..<Suc k], \<lambda>n. g (n + 2 * Suc k))
          else Inl OverflowError)"
      using True by (simp only: ok_Suc tl upt) simp
    finally show ?thesis .
  qed
qed

lemma generate_valid:
  assumes "start_date < end_date"
  shows "generate_random_date_range start_date end_date num_commits w =
           (if candidates_ok (strptime start_date) (strptime end_date - strptime start_date)
                 (rng w) (nat num_commits)
            then Inr (sort (map (candidate (strptime start_date)
                                   (strptime end_date - strptime start_date) (rng w))
                              [0..<nat num_commits]),
                      w\<lparr>rng := \<lambda>n. rng w (n + 2 * nat num_commits)\<rparr>)
            else Inl OverflowError)"
proof -
  have "\<not> strptime start_date \<ge> strptime end_date"
    using assms by (simp add: strptime_def)
  then show ?thesis
    by (simp add: generate_random_date_range_def Let_def dates_loop_eq)
qed

lemma generate_invalid:
  "\<not> start_date < end_date \<Longrightarrow>
     generate_random_date_range start_date end_date num_commits w
       = Inr ([], w\<lparr>log := log w @ [Error_start_before_end]\<rparr>)"
  by (simp add: generate_random_date_range_def strptime_def)

lemma offsets_bounds:
  assumes "start_date < end_date"
  shows "0 \<le> day_offset (strptime end_date - strptime start_date) g i"
    and "day_offset (strptime end_date - strptime start_date) g i \<le> end_date - start_date"
    and "0 \<le> second_offset g i"
    and "second_offset g i \<le> 86400"
proof -
  let ?td = "strptime end_date - strptime start_date"
  have span: "days ?td = end_date - start_date" by (rule days_time_diff)
  have pos: "0 < end_date - start_date + 1" using assms by simp
  show "0 \<le> day_offset ?td g i"
    using pos by (simp add: day_offset_def span)
  have "int (g (2 * i)) mod (end_date - start_date + 1) < end_date - start_date + 1"
    using pos by (rule pos_mod_bound)
  then show "day_offset ?td g i \<le> end_date - start_date"
    by (simp add: day_offset_def span)
  show "0 \<le> second_offset g i" by (simp add: second_offset_def)
  have "int (g (2 * i + 1)) mod 86401 < 86401" by simp
  then show "second_offset g i \<le> 86400" by (simp add: second_offset_def)
qed

lemma candidate_unfold:
  "candidate (strptime start_date) time_diff g i
     = start_date * 86400 + day_offset time_diff g i * 86400 + second_offset g i"
  by (simp add: candidate_def timedelta_def strptime_def)

lemma candidate_bounds:
  assumes "start_date < end_date"
  shows "strptime start_date \<le> candidate (strptime start_date) (strptime end_date - strptime start_date) g i"
    and "candidate (strptime start_date) (strptime end_date - strptime start_date) g i \<le> strptime end_date + 86400"
proof -
  let ?td = "strptime end_date - strptime start_date"
  note bs = offsets_bounds [OF assms, of g i]
  have "0 \<le> day_offset ?td g i * 86400" using bs(1) by simp
  then show "strptime start_date \<le> candidate (strptime start_date) ?td g i"
    using bs(3) by (simp add: candidate_def timedelta_def)
  have "day_offset ?td g i * 86400 \<le> (end_date - start_date) * 86400" using bs(2) by simp
  then show "candidate (strptime start_date) ?td g i \<le> strptime end_date + 86400"
    using bs(4) by (simp add: candidate_def timedelta_def strptime_def algebra_simps)
qed

lemma candidates_ok_in_range:
  assumes "1 \<le> start_date" and "start_date < end_date" and "end_date < 3652059"
  shows "candidates_ok (strptime start_date) (strptime end_date - strptime start_date) g k"
proof -
  have lo: "86400 \<le> strptime start_date"
    using assms(1) by (simp add: strptime_def)
  have hi: "strptime end_date + 86400 < 315537984000"
    using assms(3) by (simp add: strptime_def)
  have "datetime_ok (candidate (strptime start_date) (strptime end_date - strptime start_date) g i)" for i
    using candidate_bounds [OF assms(2), of g i] lo hi by (simp add: datetime_ok_def)
  then show ?thesis by (simp add: candidates_ok_iff)
qed

lemma generate_in_range:
  assumes "1 \<le> start_date" and "start_date < end_date" and "end_date < 3652059"
  shows "generate_random_date_range start_date end_date num_commits w =
           Inr (sort (map (candidate (strptime start_date)
                             (strptime end_date - strptime start_date) (rng w))
                        [0..<nat num_commits]),
                w\<lparr>rng := \<lambda>n. rng w (n + 2 * nat num_commits)\<rparr>)"
  by (simp add: generate_valid [OF assms(2)] candidates_ok_in_range [OF assms])

lemma generate_returns:
  assumes "start_date < end_date"
    and "generate_random_date_range start_date end_date num_commits w = Inr (dates, w')"
  shows "dates = sort (map (candidate (strptime start_date)
                              (strptime end_date - strptime start_date) (rng w))
                         [0..<nat num_commits])"
    and "w' = w\<lparr>rng := \<lambda>n. rng w (n + 2 * nat num_commits)\<rparr>"
  using assms(2) unfolding generate_valid [OF assms(1)]
  by (simp_all split: if_splits)

lemma boundary_iff:
  fixes D N X :: int
  assumes "D \<le> N" and "X \<le> 86400"
  shows "(D * 86400 + X = N * 86400 + 86400) = (D = N \<and> X = 86400)"
proof
  assume eq: "D * 86400 + X = N * 86400 + 86400"
  have "\<not> D < N"
  proof
    assume "D < N"
    then have "D + 1 \<le> N" by simp
    then have "(D + 1) * 86400 \<le> N * 86400" by simp
    then have "D * 86400 + 86400 \<le> N * 86400" by (simp add: algebra_simps)
    with eq assms(2) show False by linarith
  qed
  with assms(1) have d: "D = N" by simp
  with eq have "X = 86400" by simp
  with d show "D = N \<and> X = 86400" by simp
next
  assume "D = N \<and> X = 86400"
  then show "D * 86400 + X = N * 86400 + 86400" by simp
qed

lemma result_Inr [simp]: "result (Inr (x, s)) = Inr x"
  by (simp add: result_def)

lemma result_Inl [simp]: "result (Inl e) = Inl e"
  by (simp add: result_def)

lemma generate_length_in_range:
  assumes "1 \<le> start_date" and "start_date < end_date" and "end_date < 3652059"
  shows "\<exists>dates w'. generate_random_date_range start_date end_date num_commits w = Inr (dates, w')
           \<and> length dates = nat num_commits"
  by (simp add: generate_in_range [OF assms])

lemma generate_sorted_any:
  "generate_random_date_range start_date end_date num_commits w = Inr (dates, w') \<Longrightarrow> sorted dates"
proof (cases "start_date < end_date")
  case True
  assume "generate_random_date_range start_date end_date num_commits w = Inr (dates, w')"
  from generate_returns(1) [OF True this] show ?thesis by simp
next
  case False
  assume "generate_random_date_range start_date end_date num_commits w = Inr (dates, w')"
  with False show ?thesis by (simp add: generate_invalid)
qed

lemma generate_last_day_boundary:
  assumes "start_date < end_date" and "end_date = 3652059"
  shows "generate_random_date_range start_date end_date 1
           (w\<lparr>rng := rng_of [nat (end_date - start_date), 86400]\<rparr>) = Inl OverflowError"
proof -
  let ?td = "strptime end_date - strptime start_date"
  let ?R = "rng_of [nat (end_date - start_date), 86400]"
  have span: "days ?td = end_date - start_date" by (rule days_time_diff)
  have d: "day_offset ?td ?R 0 = end_date - start_date"
    using assms(1) by (simp add: day_offset_def span rng_of_def)
  have s: "second_offset ?R 0 = 86400"
    by (simp add: second_offset_def rng_of_def)
  have "candidate (strptime start_date) ?td ?R 0
      = start_date * 86400 + day_offset ?td ?R 0 * 86400 + second_offset ?R 0"
    by (rule candidate_unfold)
  also have "\<dots> = start_date * 86400 + (end_date - start_date) * 86400 + 86400"
    by (simp only: d s)
  also have "\<dots> = 315537984000"
    using assms(2) by (simp add: algebra_simps)
  finally have "\<not> datetime_ok (candidate (strptime start_date) ?td ?R 0)"
    by (simp add: datetime_ok_def)
  then have "\<not> candidates_ok (strptime start_date) ?td ?R (nat 1)"
    by (simp add: candidates_ok_iff)
  moreover have "rng (w\<lparr>rng := ?R\<rparr>) = ?R" by simp
  ultimately show ?thesis
    by (simp only: generate_valid [OF assms(1)] if_False)
qed

lemma generate_example_three:
  "generate_random_date_range 737425 737426 3 \<lparr>rng = rng_of [1, 10, 0, 20, 1, 5], log = []\<rparr>
     = Inr ([63713520020, 63713606405, 63713606410],
            \<lparr>rng = rng_of [1, 10, 0, 20, 1, 5], log = []\<rparr>
              \<lparr>rng := \<lambda>n. rng_of [1, 10, 0, 20, 1, 5] (n + 2 * nat 3)\<rparr>)"
proof -
  let ?R = "rng_of [1, 10, 0, 20, 1, 5]"
  let ?W = "\<lparr>rng = ?R, log = []\<rparr>"
  have g: "generate_random_date_range 737425 737426 3 ?W
      = Inr (sort (map (candidate (strptime 737425) (strptime 737426 - strptime 737425) (rng ?W))
                     [0..<nat 3]),
             ?W\<lparr>rng := \<lambda>n. rng ?W (n + 2 * nat 3)\<rparr>)"
    by (rule generate_in_range) simp_all
  have r: "rng ?W = ?R" by simp
  have three: "[0..<nat 3] = [0, Suc 0, Suc (Suc 0)]"
    by (simp add: upt_conv_Cons)
  have vals:
    "candidate (strptime 737425) (strptime 737426 - strptime 737425) ?R 0 = 63713606410"
    "candidate (strptime 737425) (strptime 737426 - strptime 737425) ?R (Suc 0) = 63713520020"
    "candidate (strptime 737425) (strptime 737426 - strptime 737425) ?R (Suc (Suc 0)) = 63713606405"
    by (simp_all add: candidate_def day_offset_def second_offset_def rng_of_def timedelta_def
          strptime_def days_def)
  have "sort (map (candidate (strptime 737425) (strptime 737426 - strptime 737425) ?R) [0..<nat 3])
      = sort [63713606410, 63713520020, 63713606405]"
    by (simp only: three list.map vals)
  also have "\<dots> = [63713520020, 63713606405, 63713606410]" by simp
  finally have m: "sort (map (candidate (strptime 737425) (strptime 737426 - strptime 737425) ?R)
                           [0..<nat 3]) = [63713520020, 63713606405, 63713606410]" .
  show ?thesis by (simp only: g r m)
qed

lemma candidate_without_boundary_draw:
  assumes "1 \<le> start_date" and "start_date < end_date" and "end_date \<le> 3652059"
    and "second_offset g i \<le> 86399"
  shows "datetime_ok (candidate (strptime start_date) (strptime end_date - strptime start_date) g i)"
proof -
  let ?td = "strptime end_date - strptime start_date"
  note bs = offsets_bounds [OF assms(2), of g i]
  have "0 \<le> day_offset ?td g i * 86400" using bs(1) by simp
  then have lo: "86400 \<le> candidate (strptime start_date) ?td g i"
    using bs(3) assms(1) by (simp add: candidate_unfold)
  have "day_offset ?td g i * 86400 \<le> (end_date - start_date) * 86400" using bs(2) by simp
  then have "candidate (strptime start_date) ?td g i \<le> end_date * 86400 + 86399"
    using assms(4) by (simp add: candidate_unfold algebra_simps)
  then have hi: "candidate (strptime start_date) ?td g i < 315537984000"
    using assms(3) by simp
  from lo hi show ?thesis by (simp add: datetime_ok_def)
qed

section \<open>Claims about the generator\<close>

text \<open>
  C8. For a valid range (start before end), a count of 0 gives the empty sequence. No
  random draw is consumed and nothing is logged.
\<close>

theorem generate_zero_count:
  "start_date < end_date \<Longrightarrow>
     generate_random_date_range start_date end_date 0 w = Inr ([], w)"
  by (simp add: generate_valid candidates_ok_def)

theorem generate_zero_count_witness:
  "(737425::int) < 737426 \<and>
   generate_random_date_range 737425 737426 0 \<lparr>rng = rng_of [5, 7], log = []\<rparr>
     = Inr ([], \<lparr>rng = rng_of [5, 7], log = []\<rparr>)"
  using generate_zero_count [of 737425 737426 "\<lparr>rng = rng_of [5, 7], log = []\<rparr>"]
  by simp

text \<open>
  C4. When start equals end or start is after end, the generator reports the invalid range
  (the error record "Start date must be before end date" is logged) and returns the empty
  list, whatever the count; no random draw is consumed.
\<close>

theorem generate_invalid_range:
  "end_date \<le> start_date \<Longrightarrow>
     generate_random_date_range start_date end_date num_commits w
       = Inr ([], w\<lparr>log := log w @ [Error_start_before_end]\<rparr>)"
  by (simp add: generate_random_date_range_def strptime_def)

theorem generate_invalid_range_witness:
  "(737425::int) \<le> 737425 \<and> (737425::int) \<le> 737430 \<and>
   generate_random_date_range 737425 737425 3 \<lparr>rng = rng_of [1, 2], log = []\<rparr>
     = Inr ([], \<lparr>rng = rng_of [1, 2], log = [Error_start_before_end]\<rparr>) \<and>
   generate_random_date_range 737430 737425 3 \<lparr>rng = rng_of [1, 2], log = []\<rparr>
     = Inr ([], \<lparr>rng = rng_of [1, 2], log = [Error_start_before_end]\<rparr>)"
  using generate_invalid_range [of 737425 737425 3 "\<lparr>rng = rng_of [1, 2], log = []\<rparr>"]
        generate_invalid_range [of 737425 737430 3 "\<lparr>rng = rng_of [1, 2], log = []\<rparr>"]
  by simp

text \<open>
  C6. The claim gives a sequence of exactly count elements for every valid range and every
  source of random draws. The second offset is drawn with \<^verbatim>\<open>random.randint(0, 86400)\<close>,
  whose upper bound is inclusive, although the comment beside it reads "Random time within
  the day". For the range 9999-12-30 to 9999-12-31 (days 3652058 and 3652059), one commit,
  and the draws 1 for the day and 86400 for the second, the candidate is the midnight that
  follows 9999-12-31, which no \<^verbatim>\<open>datetime\<close> holds: the addition raises
  \<^verbatim>\<open>OverflowError\<close> and no sequence is returned. With a second offset of at most 86399
  every candidate is at most 23:59:59 of the end day and within the range of
  \<^verbatim>\<open>datetime\<close> (\<open>candidate_without_boundary_draw\<close>).
\<close>

theorem generate_overflows_at_last_day:
  "(3652058::int) < 3652059 \<and> (0::int) \<le> 1 \<and>
   generate_random_date_range 3652058 3652059 1 \<lparr>rng = rng_of [1, 86400], log = []\<rparr>
     = Inl OverflowError"
proof -
  have lt: "(3652058::int) < 3652059" by simp
  from generate_last_day_boundary [OF lt refl, of "\<lparr>rng = rng_of [1, 86400], log = []\<rparr>"]
  show ?thesis by simp
qed

text \<open>
  C5. For a valid range the returned sequence is sorted in ascending order, for every
  count and every source of random draws. Elements may repeat: with two commits and the
  same draws twice, the two timestamps are equal.
\<close>

theorem generate_sorted:
  "start_date < end_date \<Longrightarrow>
     (generate_random_date_range start_date end_date num_commits w = Inr (dates, w')
        \<longrightarrow> sorted dates) \<and>
     (1 \<le> start_date \<longrightarrow> end_date \<le> 3652059 \<longrightarrow>
        result (generate_random_date_range start_date end_date 2
                  (w\<lparr>rng := rng_of [0, 30, 0, 30]\<rparr>))
          = Inr [strptime start_date + 30, strptime start_date + 30])"
proof -
  assume valid: "start_date < end_date"
  let ?R = "rng_of [0, 30, 0, 30]"
  let ?S = "strptime start_date"
  let ?T = "strptime end_date - strptime start_date"
  have a: "generate_random_date_range start_date end_date num_commits w = Inr (dates, w')
        \<longrightarrow> sorted dates"
    using generate_sorted_any by blast
  have two: "[0..<nat 2] = [0, Suc 0]"
    by (simp add: upt_conv_Cons)
  have c0: "candidate ?S ?T ?R 0 = ?S + 30"
    by (simp add: candidate_def day_offset_def second_offset_def rng_of_def timedelta_def)
  have c1: "candidate ?S ?T ?R (Suc 0) = ?S + 30"
    by (simp add: candidate_def day_offset_def second_offset_def rng_of_def timedelta_def)
  have r: "rng (w\<lparr>rng := ?R\<rparr>) = ?R" by simp
  have b: "result (generate_random_date_range start_date end_date 2 (w\<lparr>rng := ?R\<rparr>))
        = Inr [?S + 30, ?S + 30]"
    if lo: "1 \<le> start_date" and hi: "end_date \<le> 3652059"
  proof -
    have dok: "datetime_ok (?S + 30)"
      using lo hi valid by (simp add: datetime_ok_def strptime_def)
    have ok: "candidates_ok ?S ?T ?R (nat 2)"
      unfolding candidates_ok_iff
    proof (intro allI impI)
      fix i :: nat
      assume "i < nat 2"
      then have "i = 0 \<or> i = Suc 0" by auto
      then show "datetime_ok (candidate ?S ?T ?R i)"
        using c0 c1 dok by auto
    qed
    have "generate_random_date_range start_date end_date 2 (w\<lparr>rng := ?R\<rparr>)
        = Inr (sort (map (candidate ?S ?T ?R) [0..<nat 2]),
               w\<lparr>rng := ?R\<rparr>\<lparr>rng := \<lambda>n. ?R (n + 2 * nat 2)\<rparr>)"
      using ok by (simp only: generate_valid [OF valid] r if_True)
    then have "result (generate_random_date_range start_date end_date 2 (w\<lparr>rng := ?R\<rparr>))
        = Inr (sort (map (candidate ?S ?T ?R) [0..<nat 2]))"
      by (simp only: result_Inr)
    also have "\<dots> = Inr (sort [?S + 30, ?S + 30])"
      by (simp only: two list.map c0 c1)
    also have "\<dots> = Inr [?S + 30, ?S + 30]"
      by simp
    finally show ?thesis .
  qed
  from a b show ?thesis by blast
qed

theorem generate_sorted_witness:
  "(737425::int) < 737426 \<and>
   generate_random_date_range 737425 737426 3 \<lparr>rng = rng_of [1, 10, 0, 20, 1, 5], log = []\<rparr>
     = Inr ([63713520020, 63713606405, 63713606410],
            \<lparr>rng = rng_of [1, 10, 0, 20, 1, 5], log = []\<rparr>
              \<lparr>rng := \<lambda>n. rng_of [1, 10, 0, 20, 1, 5] (n + 2 * nat 3)\<rparr>) \<and>
   sorted [63713520020, 63713606405, 63713606410 :: int] \<and>
   (1::int) \<le> 737425 \<and> (737426::int) \<le> 3652059 \<and>
   result (generate_random_date_range 737425 737426 2 \<lparr>rng = rng_of [0, 30, 0, 30], log = []\<rparr>)
     = Inr [63713520030, 63713520030]"
proof -
  let ?W = "\<lparr>rng = rng_of [1, 10, 0, 20, 1, 5], log = []\<rparr>"
  have valid: "(737425::int) < 737426" by simp
  have lo: "(1::int) \<le> 737425" and hi: "(737426::int) \<le> 3652059" by simp_all
  note g = generate_example_three
  note t = generate_sorted [OF valid, of 3 ?W "[63713520020, 63713606405, 63713606410]"
             "?W\<lparr>rng := \<lambda>n. rng_of [1, 10, 0, 20, 1, 5] (n + 2 * nat 3)\<rparr>"]
  from t g have s: "sorted [63713520020, 63713606405, 63713606410 :: int]"
    by blast
  from t lo hi have "result (generate_random_date_range 737425 737426 2
                               (?W\<lparr>rng := rng_of [0, 30, 0, 30]\<rparr>))
      = Inr [strptime 737425 + 30, strptime 737425 + 30]"
    by blast
  then have d: "result (generate_random_date_range 737425 737426 2
                          \<lparr>rng = rng_of [0, 30, 0, 30], log = []\<rparr>)
      = Inr [63713520030, 63713520030]"
    by (simp add: strptime_def)
  from valid g s lo hi d show ?thesis by blast
qed

text \<open>
  C2. The claim bounds every returned value strictly below end plus one day. The second
  offset is drawn with \<^verbatim>\<open>random.randint(0, 86400)\<close>, whose upper bound is inclusive, although
  the comment beside it reads "Random time within the day". For the range 2020-01-01 to
  2020-01-02 (days 737425 and 737426), one commit, and the draws 1 for the day and 86400
  for the second, the returned value is 2020-01-03 00:00:00, which is end plus one day
  exactly and so not strictly below it.
\<close>

theorem generate_hits_end_plus_one_day:
  "result (generate_random_date_range 737425 737426 1 \<lparr>rng = rng_of [1, 86400], log = []\<rparr>)
     = Inr [63713692800] \<and>
   strptime 737426 + 86400 = 63713692800"
proof -
  let ?W = "\<lparr>rng = rng_of [1, 86400], log = []\<rparr>"
  have g: "generate_random_date_range 737425 737426 1 ?W
      = Inr (sort (map (candidate (strptime 737425) (strptime 737426 - strptime 737425) (rng ?W))
                     [0..<nat 1]),
             ?W\<lparr>rng := \<lambda>n. rng ?W (n + 2 * nat 1)\<rparr>)"
    by (rule generate_in_range) simp_all
  have one: "[0..<nat 1] = [0]" by simp
  have c: "candidate (strptime 737425) (strptime 737426 - strptime 737425) (rng_of [1, 86400]) 0
             = 63713692800"
    by (simp add: candidate_def day_offset_def second_offset_def rng_of_def timedelta_def
          strptime_def days_def)
  have r: "rng ?W = rng_of [1, 86400]" by simp
  have "result (generate_random_date_range 737425 737426 1 ?W)
      = Inr (sort (map (candidate (strptime 737425) (strptime 737426 - strptime 737425)
                          (rng_of [1, 86400])) [0..<nat 1]))"
    by (simp only: g result_Inr r)
  also have "\<dots> = Inr [63713692800]"
    by (simp only: one list.map c) simp
  finally show ?thesis by (simp add: strptime_def)
qed

text \<open>
  C7. For a valid range, the call returns exactly when every candidate is within the range
  of \<^verbatim>\<open>datetime\<close>, and the returned list is the sorted list of the candidates, one per
  iteration. The candidate of iteration \<open>i\<close> is start plus \<open>day_offset\<close> days plus
  \<open>second_offset\<close> seconds, where \<open>day_offset\<close> is the result of
  \<^verbatim>\<open>random.randint(0, time_diff.days)\<close> on the draws left at that point and lies in
  \<open>[0, span_days]\<close> with \<open>span_days = (end - start).days\<close>, and \<open>second_offset\<close> is the
  result of \<^verbatim>\<open>random.randint(0, 86400)\<close> on the next draw and lies in \<open>[0, 86400]\<close>. The
  value 86400 is reached.
\<close>

theorem generate_candidates:
  "start_date < end_date \<Longrightarrow>
     generate_random_date_range start_date end_date num_commits w
       = (if candidates_ok (strptime start_date) (strptime end_date - strptime start_date)
               (rng w) (nat num_commits)
          then Inr (sort (map (candidate (strptime start_date)
                                 (strptime end_date - strptime start_date) (rng w))
                            [0..<nat num_commits]),
                    w\<lparr>rng := \<lambda>n. rng w (n + 2 * nat num_commits)\<rparr>)
          else Inl OverflowError) \<and>
     days (strptime end_date - strptime start_date) = end_date - start_date \<and>
     candidate (strptime start_date) (strptime end_date - strptime start_date) g i
       = strptime start_date
           + timedelta (day_offset (strptime end_date - strptime start_date) g i) (second_offset g i) \<and>
     day_offset (strptime end_date - strptime start_date) g i
       = fst (randint 0 (days (strptime end_date - strptime start_date)) (\<lambda>n. g (2 * i + n))) \<and>
     second_offset g i = fst (randint 0 86400 (\<lambda>n. g (2 * i + 1 + n))) \<and>
     0 \<le> day_offset (strptime end_date - strptime start_date) g i \<and>
     day_offset (strptime end_date - strptime start_date) g i
       \<le> days (strptime end_date - strptime start_date) \<and>
     0 \<le> second_offset g i \<and> second_offset g i \<le> 86400 \<and>
     second_offset (rng_of [0, 86400]) 0 = 86400"
proof -
  assume valid: "start_date < end_date"
  let ?td = "strptime end_date - strptime start_date"
  note a = generate_valid [OF valid, of num_commits w]
  have b: "days ?td = end_date - start_date" by (rule days_time_diff)
  have c: "candidate (strptime start_date) ?td g i
       = strptime start_date + timedelta (day_offset ?td g i) (second_offset g i)"
    by (simp add: candidate_def)
  have d: "day_offset ?td g i = fst (randint 0 (days ?td) (\<lambda>n. g (2 * i + n)))"
    by (simp add: day_offset_def randint_def)
  have e: "second_offset g i = fst (randint 0 86400 (\<lambda>n. g (2 * i + 1 + n)))"
    by (simp add: second_offset_def randint_def)
  have f: "second_offset (rng_of [0, 86400]) 0 = 86400"
    by (simp add: second_offset_def rng_of_def)
  note bs = offsets_bounds [OF valid, of g i]
  have g1: "day_offset ?td g i \<le> days ?td" using bs(2) by (simp only: b)
  from a b c d e f bs(1) g1 bs(3) bs(4) show ?thesis by blast
qed

theorem generate_candidates_witness:
  "(737425::int) < 737427 \<and>
   candidates_ok (strptime 737425) (strptime 737427 - strptime 737425)
     (rng_of [5, 86400, 1, 7]) (nat 2) \<and>
   result (generate_random_date_range 737425 737427 2 \<lparr>rng = rng_of [5, 86400, 1, 7], log = []\<rparr>)
     = Inr [63713606407, 63713779200] \<and>
   days (strptime 737427 - strptime 737425) = 2 \<and>
   day_offset (strptime 737427 - strptime 737425) (rng_of [5, 86400, 1, 7]) 0 = 2 \<and>
   second_offset (rng_of [5, 86400, 1, 7]) 0 = 86400 \<and>
   candidate (strptime 737425) (strptime 737427 - strptime 737425) (rng_of [5, 86400, 1, 7]) 0
     = 63713779200"
proof -
  let ?R = "rng_of [5, 86400, 1, 7]"
  let ?W = "\<lparr>rng = ?R, log = []\<rparr>"
  let ?S = "strptime 737425"
  let ?T = "strptime 737427 - strptime 737425"
  have valid: "(737425::int) < 737427" by simp
  have vals:
    "candidate ?S ?T ?R 0 = 63713779200"
    "candidate ?S ?T ?R (Suc 0) = 63713606407"
    "day_offset ?T ?R 0 = 2"
    "second_offset ?R 0 = 86400"
    by (simp_all add: candidate_def day_offset_def second_offset_def rng_of_def timedelta_def
          strptime_def days_def)
  have two: "[0..<nat 2] = [0, Suc 0]" by (simp add: upt_conv_Cons)
  have r: "rng ?W = ?R" by simp
  have s: "sort [63713779200, 63713606407::int] = [63713606407, 63713779200]" by simp
  have ok: "candidates_ok ?S ?T ?R (nat 2)"
    by (rule candidates_ok_in_range) simp_all
  note t = generate_candidates [OF valid, of 2 ?W ?R 0]
  from t have "generate_random_date_range 737425 737427 2 ?W
       = (if candidates_ok ?S ?T (rng ?W) (nat 2)
          then Inr (sort (map (candidate ?S ?T (rng ?W)) [0..<nat 2]),
                    ?W\<lparr>rng := \<lambda>n. rng ?W (n + 2 * nat 2)\<rparr>)
          else Inl OverflowError)"
    by blast
  then have "generate_random_date_range 737425 737427 2 ?W
       = Inr (sort (map (candidate ?S ?T ?R) [0..<nat 2]),
              ?W\<lparr>rng := \<lambda>n. ?R (n + 2 * nat 2)\<rparr>)"
    using ok by (simp only: r if_True)
  then have "result (generate_random_date_range 737425 737427 2 ?W)
       = Inr (sort (map (candidate ?S ?T ?R) [0..<nat 2]))"
    by (simp only: result_Inr)
  then have g: "result (generate_random_date_range 737425 737427 2 ?W)
       = Inr [63713606407, 63713779200]"
    by (simp only: two list.map vals s)
  from t have "days ?T = 737427 - 737425" by blast
  then have d: "days ?T = 2" by simp
  from valid ok g d vals show ?thesis by blast
qed

text \<open>
  C9 as stated. For the range 9999-12-29 to 9999-12-31 (days 3652057 and 3652059) and one
  commit, the draws give the day offset \<open>span_days = 2\<close> and the second offset 86400, but
  end plus one day is beyond the last \<^verbatim>\<open>datetime\<close>: the call raises \<^verbatim>\<open>OverflowError\<close> and
  returns no value, so end plus one day is not attained with these draws.
\<close>

theorem generate_end_plus_one_day_unattained:
  "(3652057::int) < 3652059 \<and>
   day_offset (strptime 3652059 - strptime 3652057) (rng_of [2, 86400]) 0
     = days (strptime 3652059 - strptime 3652057) \<and>
   second_offset (rng_of [2, 86400]) 0 = 86400 \<and>
   result (generate_random_date_range 3652057 3652059 1 \<lparr>rng = rng_of [2, 86400], log = []\<rparr>)
     = Inl OverflowError"
proof -
  have lt: "(3652057::int) < 3652059" by simp
  have d: "day_offset (strptime 3652059 - strptime 3652057) (rng_of [2, 86400]) 0
      = days (strptime 3652059 - strptime 3652057)"
    by (simp add: day_offset_def days_time_diff rng_of_def)
  have s: "second_offset (rng_of [2, 86400]) 0 = 86400"
    by (simp add: second_offset_def rng_of_def)
  from generate_last_day_boundary [OF lt refl, of "\<lparr>rng = rng_of [2, 86400], log = []\<rparr>"]
  have "generate_random_date_range 3652057 3652059 1 \<lparr>rng = rng_of [2, 86400], log = []\<rparr>
      = Inl OverflowError"
    by simp
  then have "result (generate_random_date_range 3652057 3652059 1
                       \<lparr>rng = rng_of [2, 86400], log = []\<rparr>) = Inl OverflowError"
    by (simp only: result_Inl)
  with lt d s show ?thesis by blast
qed

text \<open>
  C9 as amended. For a valid range every value returned lies between start and end plus
  one day, both bounds included, so no value exceeds end plus one day. A candidate equals
  end plus one day exactly when its day offset is \<open>span_days\<close> and its second offset is
  86400. When end is before 9999-12-31 those draws return that value; when end is
  9999-12-31 they raise \<^verbatim>\<open>OverflowError\<close> and nothing is returned.
\<close>

theorem generate_inclusive_upper_bound:
  "start_date < end_date \<Longrightarrow>
     (generate_random_date_range start_date end_date num_commits w = Inr (dates, w') \<longrightarrow>
        (\<forall>v \<in> set dates. strptime start_date \<le> v \<and> v \<le> strptime end_date + 86400)) \<and>
     ((candidate (strptime start_date) (strptime end_date - strptime start_date) g i
         = strptime end_date + 86400)
       = (day_offset (strptime end_date - strptime start_date) g i
            = days (strptime end_date - strptime start_date) \<and>
          second_offset g i = 86400)) \<and>
     (1 \<le> start_date \<longrightarrow> end_date < 3652059 \<longrightarrow>
        result (generate_random_date_range start_date end_date 1
                  (w\<lparr>rng := rng_of [nat (end_date - start_date), 86400]\<rparr>))
          = Inr [strptime end_date + 86400]) \<and>
     (end_date = 3652059 \<longrightarrow>
        result (generate_random_date_range start_date end_date 1
                  (w\<lparr>rng := rng_of [nat (end_date - start_date), 86400]\<rparr>))
          = Inl OverflowError)"
proof -
  assume valid: "start_date < end_date"
  let ?td = "strptime end_date - strptime start_date"
  let ?R = "rng_of [nat (end_date - start_date), 86400]"
  have span: "days ?td = end_date - start_date" by (rule days_time_diff)
  have a: "\<forall>v \<in> set dates. strptime start_date \<le> v \<and> v \<le> strptime end_date + 86400"
    if ret: "generate_random_date_range start_date end_date num_commits w = Inr (dates, w')"
  proof
    fix v
    assume "v \<in> set dates"
    then obtain k where "v = candidate (strptime start_date) ?td (rng w) k"
      unfolding generate_returns(1) [OF valid ret] by auto
    then show "strptime start_date \<le> v \<and> v \<le> strptime end_date + 86400"
      using candidate_bounds [OF valid, of "rng w" k] by simp
  qed
  note bs = offsets_bounds [OF valid, of g i]
  have b: "(candidate (strptime start_date) ?td g i = strptime end_date + 86400)
       = (day_offset ?td g i = days ?td \<and> second_offset g i = 86400)"
  proof -
    define D where "D = day_offset ?td g i"
    define X where "X = second_offset g i"
    define N where "N = end_date - start_date"
    have dn: "D \<le> N" and x: "X \<le> 86400"
      using bs(2) bs(4) by (simp_all add: D_def X_def N_def)
    have cu: "candidate (strptime start_date) ?td g i = start_date * 86400 + (D * 86400 + X)"
      by (simp add: candidate_unfold D_def X_def)
    have e: "strptime end_date + 86400 = start_date * 86400 + (N * 86400 + 86400)"
      by (simp add: strptime_def N_def algebra_simps)
    have "(candidate (strptime start_date) ?td g i = strptime end_date + 86400)
        = (D * 86400 + X = N * 86400 + 86400)"
      by (simp only: cu e add_left_cancel)
    also have "\<dots> = (D = N \<and> X = 86400)"
      by (rule boundary_iff [OF dn x])
    finally show ?thesis
      by (simp only: D_def X_def N_def span)
  qed
  have c: "result (generate_random_date_range start_date end_date 1 (w\<lparr>rng := ?R\<rparr>))
        = Inr [strptime end_date + 86400]"
    if lo: "1 \<le> start_date" and hi: "end_date < 3652059"
  proof -
    have d: "day_offset ?td ?R 0 = end_date - start_date"
      using valid by (simp add: day_offset_def span rng_of_def)
    have s: "second_offset ?R 0 = 86400"
      by (simp add: second_offset_def rng_of_def)
    have "candidate (strptime start_date) ?td ?R 0
        = start_date * 86400 + day_offset ?td ?R 0 * 86400 + second_offset ?R 0"
      by (rule candidate_unfold)
    also have "\<dots> = start_date * 86400 + (end_date - start_date) * 86400 + 86400"
      by (simp only: d s)
    also have "\<dots> = strptime end_date + 86400"
      by (simp add: strptime_def algebra_simps)
    finally have cnd: "candidate (strptime start_date) ?td ?R 0 = strptime end_date + 86400" .
    have one: "[0..<nat 1] = [0]" by simp
    have r: "rng (w\<lparr>rng := ?R\<rparr>) = ?R" by simp
    have "generate_random_date_range start_date end_date 1 (w\<lparr>rng := ?R\<rparr>)
        = Inr (sort (map (candidate (strptime start_date) ?td (rng (w\<lparr>rng := ?R\<rparr>))) [0..<nat 1]),
               w\<lparr>rng := ?R\<rparr>\<lparr>rng := \<lambda>n. rng (w\<lparr>rng := ?R\<rparr>) (n + 2 * nat 1)\<rparr>)"
      by (rule generate_in_range [OF lo valid hi])
    then have "result (generate_random_date_range start_date end_date 1 (w\<lparr>rng := ?R\<rparr>))
        = Inr (sort (map (candidate (strptime start_date) ?td ?R) [0..<nat 1]))"
      by (simp only: result_Inr r)
    also have "\<dots> = Inr [strptime end_date + 86400]"
      by (simp only: one list.map cnd) simp
    finally show ?thesis .
  qed
  have d: "result (generate_random_date_range start_date end_date 1 (w\<lparr>rng := ?R\<rparr>))
        = Inl OverflowError"
    if "end_date = 3652059"
    by (simp only: generate_last_day_boundary [OF valid that] result_Inl)
  from a b c d show ?thesis by blast
qed

theorem generate_inclusive_upper_bound_witness:
  "(737425::int) < 737426 \<and>
   generate_random_date_range 737425 737426 3 \<lparr>rng = rng_of [1, 10, 0, 20, 1, 5], log = []\<rparr>
     = Inr ([63713520020, 63713606405, 63713606410],
            \<lparr>rng = rng_of [1, 10, 0, 20, 1, 5], log = []\<rparr>
              \<lparr>rng := \<lambda>n. rng_of [1, 10, 0, 20, 1, 5] (n + 2 * nat 3)\<rparr>) \<and>
   63713606410 \<in> set [63713520020, 63713606405, 63713606410 :: int] \<and>
   strptime 737425 \<le> 63713606410 \<and> 63713606410 \<le> strptime 737426 + 86400 \<and>
   (1::int) \<le> 737425 \<and> (737426::int) < 3652059 \<and>
   result (generate_random_date_range 737425 737426 1 \<lparr>rng = rng_of [1, 86400], log = []\<rparr>)
     = Inr [63713692800] \<and>
   (3652058::int) < 3652059 \<and>
   result (generate_random_date_range 3652058 3652059 1 \<lparr>rng = rng_of [1, 86400], log = []\<rparr>)
     = Inl OverflowError"
proof -
  let ?W = "\<lparr>rng = rng_of [1, 10, 0, 20, 1, 5], log = []\<rparr>"
  have valid: "(737425::int) < 737426" by simp
  have lo: "(1::int) \<le> 737425" and hi: "(737426::int) < 3652059" by simp_all
  note g = generate_example_three
  have mem: "63713606410 \<in> set [63713520020, 63713606405, 63713606410 :: int]" by simp
  note t = generate_inclusive_upper_bound [OF valid, of 3 ?W
             "[63713520020, 63713606405, 63713606410]"
             "?W\<lparr>rng := \<lambda>n. rng_of [1, 10, 0, 20, 1, 5] (n + 2 * nat 3)\<rparr>"]
  from t g mem have b: "strptime 737425 \<le> 63713606410 \<and> 63713606410 \<le> strptime 737426 + 86400"
    by blast
  from t lo hi have "result (generate_random_date_range 737425 737426 1
                      (?W\<lparr>rng := rng_of [nat (737426 - 737425), 86400]\<rparr>))
      = Inr [strptime 737426 + 86400]"
    by blast
  then have c: "result (generate_random_date_range 737425 737426 1
                          \<lparr>rng = rng_of [1, 86400], log = []\<rparr>) = Inr [63713692800]"
    by (simp add: strptime_def)
  have valid2: "(3652058::int) < 3652059" by simp
  from generate_inclusive_upper_bound [OF valid2, of 1 ?W]
  have "result (generate_random_date_range 3652058 3652059 1
                  (?W\<lparr>rng := rng_of [nat (3652059 - 3652058), 86400]\<rparr>)) = Inl OverflowError"
    by blast
  then have d: "result (generate_random_date_range 3652058 3652059 1
                          \<lparr>rng = rng_of [1, 86400], log = []\<rparr>) = Inl OverflowError"
    by simp
  from valid g mem b lo hi c valid2 d show ?thesis by blast
qed

section \<open>Properties of the date-modification step\<close>

lemma generate_set_bounds:
  assumes "start_date < end_date"
    and "generate_random_date_range start_date end_date num_commits w = Inr (dates, w')"
    and "v \<in> set dates"
  shows "strptime start_date \<le> v \<and> v \<le> strptime end_date + 86400"
proof -
  from assms(3) obtain k where
    "v = candidate (strptime start_date) (strptime end_date - strptime start_date) (rng w) k"
    unfolding generate_returns(1) [OF assms(1) assms(2)] by auto
  then show ?thesis
    using candidate_bounds [OF assms(1), of "rng w" k] by simp
qed

lemma commit_date_map_loop_other:
  "commit_date_map_loop ts i commits random_dates m = Inr m' \<Longrightarrow> c \<notin> set commits \<Longrightarrow>
     m' c = m c"
proof (induction commits arbitrary: i m)
  case Nil
  then show ?case by simp
next
  case (Cons c0 commits)
  from Cons.prems(2) have ne: "c \<noteq> c0" and notin: "c \<notin> set commits" by simp_all
  show ?case
  proof (cases "i < length random_dates")
    case True
    with Cons.prems(1) obtain v where
      "commit_date_map_loop ts (Suc i) commits random_dates (m(c0 \<mapsto> v)) = Inr m'"
      by (auto split: sum.splits)
    from Cons.IH [OF this notin] ne show ?thesis by simp
  next
    case False
    with Cons.prems(1) have
      "commit_date_map_loop ts (Suc i) commits random_dates m = Inr m'"
      by simp
    from Cons.IH [OF this notin] show ?thesis .
  qed
qed

lemma commit_date_map_loop_nth:
  "commit_date_map_loop ts i commits random_dates m = Inr m' \<Longrightarrow>
   distinct commits \<Longrightarrow> k < length commits \<Longrightarrow> i + k < length random_dates \<Longrightarrow>
     \<exists>v. ts (random_dates ! (i + k)) = Inr v \<and> m' (commits ! k) = Some v"
proof (induction commits arbitrary: i k m)
  case Nil
  then show ?case by simp
next
  case (Cons c commits)
  from Cons.prems(4) have "i < length random_dates" by simp
  with Cons.prems(1) obtain v0 where v0: "ts (random_dates ! i) = Inr v0"
    and rest: "commit_date_map_loop ts (Suc i) commits random_dates (m(c \<mapsto> v0)) = Inr m'"
    by (auto split: sum.splits)
  show ?case
  proof (cases k)
    case 0
    from Cons.prems(2) have "c \<notin> set commits" by simp
    from commit_date_map_loop_other [OF rest this] have "m' c = Some v0" by simp
    with v0 0 show ?thesis by simp
  next
    case (Suc k')
    with Cons.prems have "distinct commits" "k' < length commits" "Suc i + k' < length random_dates"
      by simp_all
    from Cons.IH [OF rest this] show ?thesis by (simp add: Suc)
  qed
qed

lemma commit_date_map_loop_dom:
  "commit_date_map_loop ts i commits random_dates m = Inr m' \<Longrightarrow>
     dom m' = dom m \<union> set (take (length random_dates - i) commits)"
proof (induction commits arbitrary: i m)
  case Nil
  then show ?case by simp
next
  case (Cons c commits)
  show ?case
  proof (cases "i < length random_dates")
    case True
    then obtain d where d: "length random_dates - i = Suc d" and d': "length random_dates - Suc i = d"
      by (cases "length random_dates - i") auto
    from True Cons.prems obtain v where
      "commit_date_map_loop ts (Suc i) commits random_dates (m(c \<mapsto> v)) = Inr m'"
      by (auto split: sum.splits)
    from Cons.IH [OF this] show ?thesis by (auto simp: d d')
  next
    case False
    with Cons.prems have "commit_date_map_loop ts (Suc i) commits random_dates m = Inr m'"
      by simp
    from Cons.IH [OF this] False show ?thesis by simp
  qed
qed

lemma commit_date_map_loop_total:
  "\<forall>d \<in> set random_dates. \<exists>v. ts d = Inr v \<Longrightarrow>
     \<exists>m'. commit_date_map_loop ts i commits random_dates m = Inr m'"
proof (induction commits arbitrary: i m)
  case Nil
  show ?case by simp
next
  case (Cons c commits)
  show ?case
  proof (cases "i < length random_dates")
    case True
    then have "random_dates ! i \<in> set random_dates" by simp
    with Cons.prems obtain v where v: "ts (random_dates ! i) = Inr v" by blast
    have eq1: "commit_date_map_loop ts i (c # commits) random_dates m
        = commit_date_map_loop ts (Suc i) commits random_dates (m(c \<mapsto> v))"
      using True v by simp
    from Cons.IH [OF Cons.prems] obtain m' where
      "commit_date_map_loop ts (Suc i) commits random_dates (m(c \<mapsto> v)) = Inr m'"
      by blast
    then show ?thesis unfolding eq1 by blast
  next
    case False
    have eq2: "commit_date_map_loop ts i (c # commits) random_dates m
        = commit_date_map_loop ts (Suc i) commits random_dates m"
      using False by simp
    from Cons.IH [OF Cons.prems] obtain m' where
      "commit_date_map_loop ts (Suc i) commits random_dates m = Inr m'"
      by blast
    then show ?thesis unfolding eq2 by blast
  qed
qed

lemma transfer_repo_dates_fixed_steps:
  assumes "generate_random_date_range start_date end_date commit_count
             (w\<lparr>log := log w @ [Info_modifying_dates start_date end_date]\<rparr>) = Inr (random_dates, w1)"
    and "adjust_dates start_date end_date commits random_dates w1 = Inr (random_dates', w2)"
    and "commit_date_map_loop ts 0 commits random_dates' Map.empty = Inr m"
  shows "transfer_repo_dates_fixed ts start_date end_date commit_count commits w = Inr (m, w2)"
  by (simp add: transfer_repo_dates_fixed_def Let_def assms)

lemma generate_log_valid:
  assumes "start_date < end_date"
    and "generate_random_date_range start_date end_date num_commits w = Inr (dates, w')"
  shows "log w' = log w"
  by (simp add: generate_returns(2) [OF assms])

lemma fixed_more_commits:
  assumes lo: "1 \<le> start_date" and valid: "start_date < end_date" and hi: "end_date < 3652059"
    and tsok: "\<forall>t. strptime start_date \<le> t \<and> t \<le> strptime end_date + 86400 \<longrightarrow> (\<exists>v. ts t = Inr v)"
    and g: "generate_random_date_range start_date end_date commit_count
             (w\<lparr>log := log w @ [Info_modifying_dates start_date end_date]\<rparr>) = Inr (random_dates, w1)"
    and lt: "length random_dates < length commits"
  shows "\<exists>rd2 w3 m.
           generate_random_date_range start_date end_date (int (length commits))
             (w1\<lparr>log := log w1 @ [Warning_count_mismatch (length commits) (length random_dates)]\<rparr>)
             = Inr (rd2, w3) \<and>
           length rd2 = length commits \<and>
           commit_date_map_loop ts 0 commits rd2 Map.empty = Inr m \<and>
           transfer_repo_dates_fixed ts start_date end_date commit_count commits w = Inr (m, w3) \<and>
           log w3 = log w @ [Info_modifying_dates start_date end_date,
                             Warning_count_mismatch (length commits) (length random_dates)] \<and>
           dom m = set commits"
proof -
  let ?wr = "w1\<lparr>log := log w1 @ [Warning_count_mismatch (length commits) (length random_dates)]\<rparr>"
  let ?rd2 = "sort (map (candidate (strptime start_date) (strptime end_date - strptime start_date)
                           (rng ?wr)) [0..<nat (int (length commits))])"
  let ?w3 = "?wr\<lparr>rng := \<lambda>n. rng ?wr (n + 2 * nat (int (length commits)))\<rparr>"
  have g2: "generate_random_date_range start_date end_date (int (length commits)) ?wr
      = Inr (?rd2, ?w3)"
    by (rule generate_in_range [OF lo valid hi])
  have len: "length ?rd2 = length commits" by simp
  have adj: "adjust_dates start_date end_date commits random_dates w1 = Inr (?rd2, ?w3)"
    using lt by (simp add: adjust_dates_def Let_def g2)
  have "\<forall>d \<in> set ?rd2. \<exists>v. ts d = Inr v"
    using generate_set_bounds [OF valid g2] tsok by blast
  from commit_date_map_loop_total [OF this, of 0 commits Map.empty]
  obtain m where m: "commit_date_map_loop ts 0 commits ?rd2 Map.empty = Inr m" by blast
  have t: "transfer_repo_dates_fixed ts start_date end_date commit_count commits w = Inr (m, ?w3)"
    by (rule transfer_repo_dates_fixed_steps [OF g adj m])
  have "log w1 = log w @ [Info_modifying_dates start_date end_date]"
    using generate_log_valid [OF valid g] by simp
  then have l: "log ?w3 = log w @ [Info_modifying_dates start_date end_date,
                             Warning_count_mismatch (length commits) (length random_dates)]"
    by simp
  have "dom m = set (take (length ?rd2 - 0) commits)"
    using commit_date_map_loop_dom [OF m] by simp
  then have d: "dom m = set commits" by (simp only: len) simp
  from g2 len m t l d show ?thesis by blast
qed

lemma fixed_fewer_commits:
  assumes valid: "start_date < end_date"
    and tsok: "\<forall>t. strptime start_date \<le> t \<and> t \<le> strptime end_date + 86400 \<longrightarrow> (\<exists>v. ts t = Inr v)"
    and g: "generate_random_date_range start_date end_date commit_count
             (w\<lparr>log := log w @ [Info_modifying_dates start_date end_date]\<rparr>) = Inr (random_dates, w1)"
    and gt: "length commits < length random_dates"
  shows "\<exists>m.
           commit_date_map_loop ts 0 commits random_dates Map.empty = Inr m \<and>
           transfer_repo_dates_fixed ts start_date end_date commit_count commits w
             = Inr (m, w1\<lparr>log := log w1 @ [Warning_count_mismatch (length commits) (length random_dates)]\<rparr>) \<and>
           log w1 @ [Warning_count_mismatch (length commits) (length random_dates)]
             = log w @ [Info_modifying_dates start_date end_date,
                        Warning_count_mismatch (length commits) (length random_dates)] \<and>
           dom m = set commits"
proof -
  let ?wr = "w1\<lparr>log := log w1 @ [Warning_count_mismatch (length commits) (length random_dates)]\<rparr>"
  have adj: "adjust_dates start_date end_date commits random_dates w1 = Inr (random_dates, ?wr)"
    using gt by (simp add: adjust_dates_def Let_def)
  have "\<forall>d \<in> set random_dates. \<exists>v. ts d = Inr v"
    using generate_set_bounds [OF valid g] tsok by blast
  from commit_date_map_loop_total [OF this, of 0 commits Map.empty]
  obtain m where m: "commit_date_map_loop ts 0 commits random_dates Map.empty = Inr m" by blast
  have t: "transfer_repo_dates_fixed ts start_date end_date commit_count commits w = Inr (m, ?wr)"
    by (rule transfer_repo_dates_fixed_steps [OF g adj m])
  have "log w1 = log w @ [Info_modifying_dates start_date end_date]"
    using generate_log_valid [OF valid g] by simp
  then have l: "log w1 @ [Warning_count_mismatch (length commits) (length random_dates)]
      = log w @ [Info_modifying_dates start_date end_date,
                 Warning_count_mismatch (length commits) (length random_dates)]"
    by simp
  have "dom m = set (take (length random_dates - 0) commits)"
    using commit_date_map_loop_dom [OF m] by simp
  then have d: "dom m = set commits" using gt by simp
  from m t l d show ?thesis by blast
qed

lemma timestamp_utc_defined:
  "172800 \<le> lo \<Longrightarrow> \<forall>t. lo \<le> t \<and> t \<le> hi \<longrightarrow> (\<exists>v. timestamp_utc t = Inr v)"
  by (simp add: timestamp_utc_def)

lemma generate_overflow:
  assumes "start_date < end_date" and "j < nat num_commits"
    and "\<not> datetime_ok (candidate (strptime start_date) (strptime end_date - strptime start_date)
                           (rng w) j)"
  shows "generate_random_date_range start_date end_date num_commits w = Inl OverflowError"
proof -
  have "\<not> candidates_ok (strptime start_date) (strptime end_date - strptime start_date)
            (rng w) (nat num_commits)"
    using assms(2) assms(3) by (auto simp: candidates_ok_iff)
  then show ?thesis by (simp only: generate_valid [OF assms(1)] if_False)
qed

lemma generate_example_log:
  "generate_random_date_range 737425 737426 3 \<lparr>rng = rng_of [3, 10, 0, 20, 3, 5], log = l\<rparr>
     = Inr ([63713520020, 63713606405, 63713606410],
            \<lparr>rng = rng_of [3, 10, 0, 20, 3, 5], log = l\<rparr>
              \<lparr>rng := \<lambda>n. rng_of [3, 10, 0, 20, 3, 5] (n + 2 * nat 3)\<rparr>)"
proof -
  let ?R = "rng_of [3, 10, 0, 20, 3, 5]"
  let ?W = "\<lparr>rng = ?R, log = l\<rparr>"
  have g: "generate_random_date_range 737425 737426 3 ?W
      = Inr (sort (map (candidate (strptime 737425) (strptime 737426 - strptime 737425) (rng ?W))
                     [0..<nat 3]),
             ?W\<lparr>rng := \<lambda>n. rng ?W (n + 2 * nat 3)\<rparr>)"
    by (rule generate_in_range) simp_all
  have r: "rng ?W = ?R" by simp
  have three: "[0..<nat 3] = [0, Suc 0, Suc (Suc 0)]"
    by (simp add: upt_conv_Cons)
  have vals:
    "candidate (strptime 737425) (strptime 737426 - strptime 737425) ?R 0 = 63713606410"
    "candidate (strptime 737425) (strptime 737426 - strptime 737425) ?R (Suc 0) = 63713520020"
    "candidate (strptime 737425) (strptime 737426 - strptime 737425) ?R (Suc (Suc 0)) = 63713606405"
    by (simp_all add: candidate_def day_offset_def second_offset_def rng_of_def timedelta_def
          strptime_def days_def)
  have "sort (map (candidate (strptime 737425) (strptime 737426 - strptime 737425) ?R) [0..<nat 3])
      = sort [63713606410, 63713520020, 63713606405]"
    by (simp only: three list.map vals)
  also have "\<dots> = [63713520020, 63713606405, 63713606410]" by simp
  finally have m: "sort (map (candidate (strptime 737425) (strptime 737426 - strptime 737425) ?R)
                           [0..<nat 3]) = [63713520020, 63713606405, 63713606410]" .
  show ?thesis by (simp only: g r m)
qed

lemma generate_example_new_york:
  "generate_random_date_range 737492 737493 2 \<lparr>rng = rng_of [0, 9000, 0, 10800], log = l\<rparr>
     = Inr ([63719317800, 63719319600],
            \<lparr>rng = rng_of [0, 9000, 0, 10800], log = l\<rparr>
              \<lparr>rng := \<lambda>n. rng_of [0, 9000, 0, 10800] (n + 2 * nat 2)\<rparr>)"
proof -
  let ?R = "rng_of [0, 9000, 0, 10800]"
  let ?W = "\<lparr>rng = ?R, log = l\<rparr>"
  have g: "generate_random_date_range 737492 737493 2 ?W
      = Inr (sort (map (candidate (strptime 737492) (strptime 737493 - strptime 737492) (rng ?W))
                     [0..<nat 2]),
             ?W\<lparr>rng := \<lambda>n. rng ?W (n + 2 * nat 2)\<rparr>)"
    by (rule generate_in_range) simp_all
  have r: "rng ?W = ?R" by simp
  have two: "[0..<nat 2] = [0, Suc 0]"
    by (simp add: upt_conv_Cons)
  have vals:
    "candidate (strptime 737492) (strptime 737493 - strptime 737492) ?R 0 = 63719317800"
    "candidate (strptime 737492) (strptime 737493 - strptime 737492) ?R (Suc 0) = 63719319600"
    by (simp_all add: candidate_def day_offset_def second_offset_def rng_of_def timedelta_def
          strptime_def days_def)
  have "sort (map (candidate (strptime 737492) (strptime 737493 - strptime 737492) ?R) [0..<nat 2])
      = sort [63719317800, 63719319600]"
    by (simp only: two list.map vals)
  also have "\<dots> = [63719317800, 63719319600]" by simp
  finally have m: "sort (map (candidate (strptime 737492) (strptime 737493 - strptime 737492) ?R)
                           [0..<nat 2]) = [63719317800, 63719319600]" .
  show ?thesis by (simp only: g r m)
qed

lemma generate_example_zero_draws:
  assumes "0 < n"
  shows "generate_random_date_range start_date (start_date + 1) n \<lparr>rng = rng_of [], log = l\<rparr>
     = (if datetime_ok (strptime start_date)
        then Inr (replicate (nat n) (strptime start_date),
                  \<lparr>rng = rng_of [], log = l\<rparr>\<lparr>rng := \<lambda>k. rng_of [] (k + 2 * nat n)\<rparr>)
        else Inl OverflowError)"
proof -
  let ?W = "\<lparr>rng = rng_of [], log = l\<rparr>"
  let ?S = "strptime start_date"
  let ?T = "strptime (start_date + 1) - strptime start_date"
  have valid: "start_date < start_date + 1" by simp
  have r: "rng ?W = rng_of []" by simp
  have c: "candidate ?S ?T (rng_of []) i = ?S" for i
    by (simp add: candidate_def day_offset_def second_offset_def rng_of_def timedelta_def)
  have pos: "0 < nat n" using assms by simp
  have ok: "candidates_ok ?S ?T (rng_of []) (nat n) = datetime_ok ?S"
  proof
    assume "candidates_ok ?S ?T (rng_of []) (nat n)"
    then have "\<forall>i<nat n. datetime_ok ?S" by (simp add: candidates_ok_iff c)
    with pos show "datetime_ok ?S" by blast
  next
    assume "datetime_ok ?S"
    then show "candidates_ok ?S ?T (rng_of []) (nat n)" by (simp add: candidates_ok_iff c)
  qed
  have cf: "candidate ?S ?T (rng_of []) = (\<lambda>_. ?S)"
    by (rule ext) (rule c)
  have "map (candidate ?S ?T (rng_of [])) [0..<nat n] = replicate (nat n) ?S"
    unfolding cf by (simp add: map_replicate_const)
  moreover have "sort (replicate (nat n) ?S) = replicate (nat n) ?S"
    by (rule sort_key_id_if_sorted) simp
  ultimately have m: "sort (map (candidate ?S ?T (rng_of [])) [0..<nat n]) = replicate (nat n) ?S"
    by simp
  show ?thesis
    by (simp only: generate_valid [OF valid] r ok m)
qed

section \<open>Claims about the correlation step\<close>

text \<open>
  C1. The claim orders the values of the commit-to-date mapping by position. Both scripts
  bind the i-th generated date to the i-th commit, and the generator sorts the dates "to
  maintain chronological order", but the value stored for a commit is
  \<^verbatim>\<open>int(date.timestamp())\<close> of a naive datetime, which is read in the time zone of the
  machine. On a machine in America/New_York, for the range 2020-03-08 to 2020-03-09 (days
  737492 and 737493), two commits, and the draws 0 and 9000 and then 0 and 10800, the sorted
  dates are 02:30:00 and 03:00:00 of 2020-03-08; the first commit gets the timestamp
  1583652600 and the second the earlier timestamp 1583650800, in the dictionary of
  \<^verbatim>\<open>git_transfer_fixed.py\<close> and in the case clauses of \<^verbatim>\<open>gitcheat.py\<close> alike.
\<close>

theorem correlation_not_monotonic_across_dst:
  "result (transfer_repo_dates_fixed timestamp_new_york 737492 737493 2 [''a1'', ''b2'']
             \<lparr>rng = rng_of [0, 9000, 0, 10800], log = []\<rparr>)
     = Inr [''a1'' \<mapsto> 1583652600, ''b2'' \<mapsto> 1583650800] \<and>
   result (transfer_repo_dates timestamp_new_york 737492 737493 2 [''a1'', ''b2'']
             \<lparr>rng = rng_of [0, 9000, 0, 10800], log = []\<rparr>)
     = Inr [(''a1'', 1583652600), (''b2'', 1583650800)] \<and>
   \<not> (1583652600::int) \<le> 1583650800"
proof -
  note g = generate_example_new_york [of "[Info_modifying_dates 737492 737493]"]
  have a: "result (transfer_repo_dates_fixed timestamp_new_york 737492 737493 2 [''a1'', ''b2'']
             \<lparr>rng = rng_of [0, 9000, 0, 10800], log = []\<rparr>)
     = Inr [''a1'' \<mapsto> 1583652600, ''b2'' \<mapsto> 1583650800]"
    by (simp add: transfer_repo_dates_fixed_def Let_def g adjust_dates_def timestamp_new_york_def)
  have b: "result (transfer_repo_dates timestamp_new_york 737492 737493 2 [''a1'', ''b2'']
             \<lparr>rng = rng_of [0, 9000, 0, 10800], log = []\<rparr>)
     = Inr [(''a1'', 1583652600), (''b2'', 1583650800)]"
    by (simp add: transfer_repo_dates_def Let_def g timestamp_new_york_def)
  from a b show ?thesis by simp
qed

text \<open>
  C3 as stated. With five generated dates against four commits, on a machine in UTC and
  with every draw 0, \<^verbatim>\<open>git_transfer_fixed.py\<close> logs the warning and then fills the
  dictionary for all four commits: a mapping is produced.
\<close>

theorem count_mismatch_still_maps:
  "result (generate_random_date_range 737425 737426 5
             \<lparr>rng = rng_of [], log = [Info_modifying_dates 737425 737426]\<rparr>)
     = Inr [63713520000, 63713520000, 63713520000, 63713520000, 63713520000] \<and>
   transfer_repo_dates_fixed timestamp_utc 737425 737426 5 [''a1'', ''b2'', ''c3'', ''d4'']
     \<lparr>rng = rng_of [], log = []\<rparr>
     = Inr ([''a1'' \<mapsto> 1577836800, ''b2'' \<mapsto> 1577836800, ''c3'' \<mapsto> 1577836800,
             ''d4'' \<mapsto> 1577836800],
            \<lparr>rng = \<lambda>k. rng_of [] (k + 10),
             log = [Info_modifying_dates 737425 737426, Warning_count_mismatch 4 5]\<rparr>) \<and>
   [''a1'' \<mapsto> 1577836800, ''b2'' \<mapsto> 1577836800, ''c3'' \<mapsto> 1577836800,
    ''d4'' \<mapsto> (1577836800::int)] \<noteq> Map.empty"
proof -
  have ok: "datetime_ok (strptime 737425)" by (simp add: datetime_ok_def strptime_def)
  have five: "replicate 5 (strptime 737425)
      = [63713520000, 63713520000, 63713520000, 63713520000, 63713520000]"
    by (simp add: strptime_def eval_nat_numeral)
  have pos: "(0::int) < 5" by simp
  have g: "generate_random_date_range 737425 737426 5
             \<lparr>rng = rng_of [], log = [Info_modifying_dates 737425 737426]\<rparr>
      = Inr ([63713520000, 63713520000, 63713520000, 63713520000, 63713520000],
             \<lparr>rng = \<lambda>k. rng_of [] (k + 10), log = [Info_modifying_dates 737425 737426]\<rparr>)"
    using generate_example_zero_draws [OF pos, of 737425 "[Info_modifying_dates 737425 737426]"] ok
    by (simp add: five)
  have a: "transfer_repo_dates_fixed timestamp_utc 737425 737426 5 [''a1'', ''b2'', ''c3'', ''d4'']
     \<lparr>rng = rng_of [], log = []\<rparr>
     = Inr ([''a1'' \<mapsto> 1577836800, ''b2'' \<mapsto> 1577836800, ''c3'' \<mapsto> 1577836800,
             ''d4'' \<mapsto> 1577836800],
            \<lparr>rng = \<lambda>k. rng_of [] (k + 10),
             log = [Info_modifying_dates 737425 737426, Warning_count_mismatch 4 5]\<rparr>)"
    by (simp add: transfer_repo_dates_fixed_def Let_def g adjust_dates_def timestamp_utc_def)
  have b: "[''a1'' \<mapsto> 1577836800, ''b2'' \<mapsto> 1577836800, ''c3'' \<mapsto> 1577836800,
    ''d4'' \<mapsto> (1577836800::int)] \<noteq> Map.empty" by simp
  from g have g': "result (generate_random_date_range 737425 737426 5
             \<lparr>rng = rng_of [], log = [Info_modifying_dates 737425 737426]\<rparr>)
     = Inr [63713520000, 63713520000, 63713520000, 63713520000, 63713520000]"
    by (simp only: result_Inr)
  from g' a b show ?thesis by blast
qed

text \<open>
  C3 as amended. When start is before end, end is before 9999-12-31 and the timestamp
  conversion succeeds on the datetimes of the range: whenever the number of generated
  dates differs from the number of commits at correlation time, \<^verbatim>\<open>git_transfer_fixed.py\<close>
  logs the warning "Commit count mismatch" with the two counts, is not aborted, and still
  produces a mapping, which covers every commit.
\<close>

theorem count_mismatch_warns_and_maps:
  "1 \<le> start_date \<Longrightarrow> start_date < end_date \<Longrightarrow> end_date < 3652059 \<Longrightarrow>
   \<forall>t. strptime start_date \<le> t \<and> t \<le> strptime end_date + 86400 \<longrightarrow> (\<exists>v. ts t = Inr v) \<Longrightarrow>
   generate_random_date_range start_date end_date commit_count
     (w\<lparr>log := log w @ [Info_modifying_dates start_date end_date]\<rparr>) = Inr (random_dates, w1) \<Longrightarrow>
   length commits \<noteq> length random_dates \<Longrightarrow>
     (case transfer_repo_dates_fixed ts start_date end_date commit_count commits w of
        Inl err \<Rightarrow> False
      | Inr (commit_date_map, w2) \<Rightarrow>
          log w2 = log w @ [Info_modifying_dates start_date end_date,
                            Warning_count_mismatch (length commits) (length random_dates)] \<and>
          dom commit_date_map = set commits \<and>
          (commits \<noteq> [] \<longrightarrow> commit_date_map \<noteq> Map.empty))"
proof -
  assume lo: "1 \<le> start_date" and valid: "start_date < end_date" and hi: "end_date < 3652059"
    and tsok: "\<forall>t. strptime start_date \<le> t \<and> t \<le> strptime end_date + 86400 \<longrightarrow> (\<exists>v. ts t = Inr v)"
    and g: "generate_random_date_range start_date end_date commit_count
              (w\<lparr>log := log w @ [Info_modifying_dates start_date end_date]\<rparr>) = Inr (random_dates, w1)"
    and ne: "length commits \<noteq> length random_dates"
  have nonempty: "m \<noteq> Map.empty" if "dom m = set commits" and "commits \<noteq> []"
    for m :: "commit \<rightharpoonup> int"
  proof
    assume "m = Map.empty"
    with that(1) have "set commits = {}" by simp
    with that(2) show False by simp
  qed
  show ?thesis
  proof (cases "length random_dates < length commits")
    case True
    from fixed_more_commits [OF lo valid hi tsok g True]
    obtain rd2 w3 m where
      t: "transfer_repo_dates_fixed ts start_date end_date commit_count commits w = Inr (m, w3)"
      and l: "log w3 = log w @ [Info_modifying_dates start_date end_date,
                                Warning_count_mismatch (length commits) (length random_dates)]"
      and d: "dom m = set commits"
      by blast
    from l d nonempty [OF d] show ?thesis by (simp add: t)
  next
    case False
    with ne have gt: "length commits < length random_dates" by simp
    from fixed_fewer_commits [OF valid tsok g gt]
    obtain m where
      t: "transfer_repo_dates_fixed ts start_date end_date commit_count commits w
            = Inr (m, w1\<lparr>log := log w1 @ [Warning_count_mismatch (length commits) (length random_dates)]\<rparr>)"
      and l: "log w1 @ [Warning_count_mismatch (length commits) (length random_dates)]
            = log w @ [Info_modifying_dates start_date end_date,
                       Warning_count_mismatch (length commits) (length random_dates)]"
      and d: "dom m = set commits"
      by blast
    from l d nonempty [OF d] show ?thesis by (simp add: t)
  qed
qed

theorem count_mismatch_warns_and_maps_witness:
  "(1::int) \<le> 737425 \<and> (737425::int) < 737426 \<and> (737426::int) < 3652059 \<and>
   generate_random_date_range 737425 737426 3
     \<lparr>rng = rng_of [3, 10, 0, 20, 3, 5], log = [Info_modifying_dates 737425 737426]\<rparr>
     = Inr ([63713520020, 63713606405, 63713606410],
            \<lparr>rng = rng_of [3, 10, 0, 20, 3, 5], log = [Info_modifying_dates 737425 737426]\<rparr>
              \<lparr>rng := \<lambda>n. rng_of [3, 10, 0, 20, 3, 5] (n + 2 * nat 3)\<rparr>) \<and>
   length [''a1'', ''b2''] \<noteq> length [63713520020, 63713606405, 63713606410 :: int] \<and>
   [''a1'', ''b2''] \<noteq> [] \<and>
   (case transfer_repo_dates_fixed timestamp_utc 737425 737426 3 [''a1'', ''b2'']
           \<lparr>rng = rng_of [3, 10, 0, 20, 3, 5], log = []\<rparr> of
      Inl err \<Rightarrow> False
    | Inr (commit_date_map, w2) \<Rightarrow>
        log w2 = [Info_modifying_dates 737425 737426, Warning_count_mismatch 2 3] \<and>
        dom commit_date_map = {''a1'', ''b2''} \<and>
        commit_date_map \<noteq> Map.empty)"
proof -
  let ?R = "rng_of [3, 10, 0, 20, 3, 5]"
  let ?W = "\<lparr>rng = ?R, log = []\<rparr>"
  let ?cs = "[''a1'', ''b2'']"
  let ?rd = "[63713520020, 63713606405, 63713606410 :: int]"
  let ?w1 = "\<lparr>rng = ?R, log = [Info_modifying_dates 737425 737426]\<rparr>
               \<lparr>rng := \<lambda>n. ?R (n + 2 * nat 3)\<rparr>"
  let ?X = "transfer_repo_dates_fixed timestamp_utc 737425 737426 3 ?cs ?W"
  have lo: "(1::int) \<le> 737425" and valid: "(737425::int) < 737426"
    and hi: "(737426::int) < 3652059" by simp_all
  have tsok: "\<forall>t. strptime 737425 \<le> t \<and> t \<le> strptime 737426 + 86400
                \<longrightarrow> (\<exists>v. timestamp_utc t = Inr v)"
    by (rule timestamp_utc_defined) (simp add: strptime_def)
  note ex = generate_example_log [of "[Info_modifying_dates 737425 737426]"]
  have w0: "?W\<lparr>log := log ?W @ [Info_modifying_dates 737425 737426]\<rparr>
      = \<lparr>rng = ?R, log = [Info_modifying_dates 737425 737426]\<rparr>"
    by simp
  have g: "generate_random_date_range 737425 737426 3
             (?W\<lparr>log := log ?W @ [Info_modifying_dates 737425 737426]\<rparr>) = Inr (?rd, ?w1)"
    unfolding w0 by (rule ex)
  have ne: "length ?cs \<noteq> length ?rd" by simp
  have nonempty: "?cs \<noteq> []" by simp
  from count_mismatch_warns_and_maps [OF lo valid hi tsok g ne]
  obtain m w2 where x: "?X = Inr (m, w2)"
    and p: "log w2 = log ?W @ [Info_modifying_dates 737425 737426,
                               Warning_count_mismatch (length ?cs) (length ?rd)]"
           "dom m = set ?cs" "?cs \<noteq> [] \<longrightarrow> m \<noteq> Map.empty"
    by (cases ?X) auto
  from p nonempty have q: "log w2 = [Info_modifying_dates 737425 737426, Warning_count_mismatch 2 3]"
    "dom m = {''a1'', ''b2''}" "m \<noteq> Map.empty"
    by simp_all
  have c: "case ?X of Inl err \<Rightarrow> False
      | Inr (commit_date_map, w2) \<Rightarrow>
          log w2 = [Info_modifying_dates 737425 737426, Warning_count_mismatch 2 3] \<and>
          dom commit_date_map = {''a1'', ''b2''} \<and>
          commit_date_map \<noteq> Map.empty"
    unfolding x using q by simp
  from lo valid hi ex ne nonempty c show ?thesis by blast
qed

lemma generate_zero:
  "start_date < end_date \<Longrightarrow>
     generate_random_date_range start_date end_date 0 w = Inr ([], w)"
  by (simp add: generate_valid candidates_ok_def)

text \<open>
  C10 as stated, on a machine in UTC. With end before start the first generation returns
  no date, the two commits outnumber the dates and the dates are generated again for two
  commits; the second list is empty as well and no commit receives a timestamp. For the
  range 9999-12-30 to 9999-12-31, a commit count of 0 and two commits, the regeneration
  draws the day offset 1 and the second offset 86400 and raises \<^verbatim>\<open>OverflowError\<close>: the
  step is aborted. For the range 0001-01-01 to 0001-01-02, two generated dates and one
  commit, the surplus date is dropped, but the conversion of the first date raises
  \<^verbatim>\<open>ValueError\<close>: the step is aborted and no mapping is produced.
\<close>

theorem fixed_regeneration_fails:
  "result (generate_random_date_range 737426 737425 2
             \<lparr>rng = rng_of [3, 10, 0, 20], log = [Info_modifying_dates 737426 737425]\<rparr>)
     = Inr [] \<and>
   result (transfer_repo_dates_fixed timestamp_utc 737426 737425 2 [''a1'', ''b2'']
             \<lparr>rng = rng_of [3, 10, 0, 20], log = []\<rparr>)
     = Inr Map.empty \<and>
   transfer_repo_dates_fixed timestamp_utc 3652058 3652059 0 [''a1'', ''b2'']
     \<lparr>rng = rng_of [3, 86400], log = []\<rparr>
     = Inl OverflowError \<and>
   result (generate_random_date_range 1 2 2
             \<lparr>rng = rng_of [], log = [Info_modifying_dates 1 2]\<rparr>)
     = Inr [86400, 86400] \<and>
   transfer_repo_dates_fixed timestamp_utc 1 2 2 [''a1''] \<lparr>rng = rng_of [], log = []\<rparr>
     = Inl ValueError"
proof -
  have inv: "\<not> (737426::int) < 737425" by simp
  have a: "result (generate_random_date_range 737426 737425 2
             \<lparr>rng = rng_of [3, 10, 0, 20], log = [Info_modifying_dates 737426 737425]\<rparr>)
     = Inr []"
    by (simp add: generate_invalid [OF inv])
  have b: "result (transfer_repo_dates_fixed timestamp_utc 737426 737425 2 [''a1'', ''b2'']
             \<lparr>rng = rng_of [3, 10, 0, 20], log = []\<rparr>)
     = Inr Map.empty"
    by (simp add: transfer_repo_dates_fixed_def Let_def generate_invalid [OF inv] adjust_dates_def)
  have lt: "(3652058::int) < 3652059" by simp
  have g1: "generate_random_date_range 3652058 3652059 0
              \<lparr>rng = rng_of [3, 86400], log = [Info_modifying_dates 3652058 3652059]\<rparr>
      = Inr ([], \<lparr>rng = rng_of [3, 86400], log = [Info_modifying_dates 3652058 3652059]\<rparr>)"
    by (rule generate_zero [OF lt])
  have bad: "\<not> datetime_ok (candidate (strptime 3652058) (strptime 3652059 - strptime 3652058)
                (rng \<lparr>rng = rng_of [3, 86400],
                      log = [Info_modifying_dates 3652058 3652059,
                             Warning_count_mismatch (Suc (Suc 0)) 0]\<rparr>) 0)"
    by (simp add: candidate_def day_offset_def second_offset_def rng_of_def timedelta_def
          strptime_def days_def datetime_ok_def)
  have j: "0 < nat 2" by simp
  have g2: "generate_random_date_range 3652058 3652059 2
              \<lparr>rng = rng_of [3, 86400],
               log = [Info_modifying_dates 3652058 3652059, Warning_count_mismatch (Suc (Suc 0)) 0]\<rparr>
      = Inl OverflowError"
    by (rule generate_overflow [OF lt j bad])
  have c: "transfer_repo_dates_fixed timestamp_utc 3652058 3652059 0 [''a1'', ''b2'']
     \<lparr>rng = rng_of [3, 86400], log = []\<rparr> = Inl OverflowError"
    by (simp add: transfer_repo_dates_fixed_def Let_def g1 adjust_dates_def g2)
  have ok: "datetime_ok (strptime 1)" by (simp add: datetime_ok_def strptime_def)
  have pos: "(0::int) < 2" by simp
  have two: "replicate 2 (strptime 1) = [86400, 86400]"
    by (simp add: strptime_def eval_nat_numeral)
  have g3: "generate_random_date_range 1 2 2 \<lparr>rng = rng_of [], log = [Info_modifying_dates 1 2]\<rparr>
      = Inr ([86400, 86400],
             \<lparr>rng = \<lambda>k. rng_of [] (k + 4), log = [Info_modifying_dates 1 2]\<rparr>)"
    using generate_example_zero_draws [OF pos, of 1 "[Info_modifying_dates 1 2]"] ok
    by (simp add: two)
  from g3 have d: "result (generate_random_date_range 1 2 2
             \<lparr>rng = rng_of [], log = [Info_modifying_dates 1 2]\<rparr>) = Inr [86400, 86400]"
    by (simp only: result_Inr)
  have e: "transfer_repo_dates_fixed timestamp_utc 1 2 2 [''a1''] \<lparr>rng = rng_of [], log = []\<rparr>
     = Inl ValueError"
    by (simp add: transfer_repo_dates_fixed_def Let_def g3 adjust_dates_def timestamp_utc_def)
  from a b c d e show ?thesis by blast
qed

text \<open>
  C10 as amended. In the date-modification step of \<^verbatim>\<open>git_transfer_fixed.py\<close>, when start
  is before end, end is before 9999-12-31 and the timestamp conversion succeeds on the
  datetimes of the range: when the commit list is longer than the generated date list, the
  dates are generated again from scratch for the full commit count before the mapping is
  built, so every listed commit receives a timestamp; when the generated date list is
  longer than the commit list, the surplus dates are silently discarded (the only record
  logged is the warning of the count mismatch) and a mapping covering every commit is still
  produced, each commit with the date at its position. In neither direction is the step
  aborted.
\<close>

theorem fixed_regenerates_or_discards:
  "1 \<le> start_date \<Longrightarrow> start_date < end_date \<Longrightarrow> end_date < 3652059 \<Longrightarrow>
   \<forall>t. strptime start_date \<le> t \<and> t \<le> strptime end_date + 86400 \<longrightarrow> (\<exists>v. ts t = Inr v) \<Longrightarrow>
   generate_random_date_range start_date end_date commit_count
     (w\<lparr>log := log w @ [Info_modifying_dates start_date end_date]\<rparr>) = Inr (random_dates, w1) \<Longrightarrow>
     (length random_dates < length commits \<longrightarrow>
        (case generate_random_date_range start_date end_date (int (length commits))
                (w1\<lparr>log := log w1 @ [Warning_count_mismatch (length commits) (length random_dates)]\<rparr>) of
           Inl err \<Rightarrow> False
         | Inr (regenerated, w3) \<Rightarrow>
             length regenerated = length commits \<and>
             (case transfer_repo_dates_fixed ts start_date end_date commit_count commits w of
                Inl err \<Rightarrow> False
              | Inr (commit_date_map, w2) \<Rightarrow>
                  w2 = w3 \<and>
                  dom commit_date_map = set commits \<and>
                  (distinct commits \<longrightarrow>
                     (\<forall>k<length commits. \<exists>v. ts (regenerated ! k) = Inr v
                                            \<and> commit_date_map (commits ! k) = Some v))))) \<and>
     (length commits < length random_dates \<longrightarrow>
        (case transfer_repo_dates_fixed ts start_date end_date commit_count commits w of
           Inl err \<Rightarrow> False
         | Inr (commit_date_map, w2) \<Rightarrow>
             w2 = w1\<lparr>log := log w1 @ [Warning_count_mismatch (length commits) (length random_dates)]\<rparr> \<and>
             log w2 = log w @ [Info_modifying_dates start_date end_date,
                               Warning_count_mismatch (length commits) (length random_dates)] \<and>
             dom commit_date_map = set commits \<and>
             (distinct commits \<longrightarrow>
                (\<forall>k<length commits. \<exists>v. ts (random_dates ! k) = Inr v
                                       \<and> commit_date_map (commits ! k) = Some v))))"
proof -
  assume lo: "1 \<le> start_date" and valid: "start_date < end_date" and hi: "end_date < 3652059"
    and tsok: "\<forall>t. strptime start_date \<le> t \<and> t \<le> strptime end_date + 86400 \<longrightarrow> (\<exists>v. ts t = Inr v)"
    and g: "generate_random_date_range start_date end_date commit_count
              (w\<lparr>log := log w @ [Info_modifying_dates start_date end_date]\<rparr>) = Inr (random_dates, w1)"
  let ?wr = "w1\<lparr>log := log w1 @ [Warning_count_mismatch (length commits) (length random_dates)]\<rparr>"
  let ?X = "transfer_repo_dates_fixed ts start_date end_date commit_count commits w"
  have more: "case generate_random_date_range start_date end_date (int (length commits)) ?wr of
           Inl err \<Rightarrow> False
         | Inr (regenerated, w3) \<Rightarrow>
             length regenerated = length commits \<and>
             (case ?X of
                Inl err \<Rightarrow> False
              | Inr (commit_date_map, w2) \<Rightarrow>
                  w2 = w3 \<and>
                  dom commit_date_map = set commits \<and>
                  (distinct commits \<longrightarrow>
                     (\<forall>k<length commits. \<exists>v. ts (regenerated ! k) = Inr v
                                            \<and> commit_date_map (commits ! k) = Some v)))"
    if lt: "length random_dates < length commits"
  proof -
    from fixed_more_commits [OF lo valid hi tsok g lt]
    obtain rd2 w3 m where
      g2: "generate_random_date_range start_date end_date (int (length commits)) ?wr = Inr (rd2, w3)"
      and len: "length rd2 = length commits"
      and m: "commit_date_map_loop ts 0 commits rd2 Map.empty = Inr m"
      and t: "?X = Inr (m, w3)"
      and d: "dom m = set commits"
      by blast
    have "\<exists>v. ts (rd2 ! k) = Inr v \<and> m (commits ! k) = Some v"
      if "distinct commits" and "k < length commits" for k
      using commit_date_map_loop_nth [OF m that(1) that(2)] that(2) len by simp
    with len d show ?thesis by (simp add: g2 t)
  qed
  have fewer: "case ?X of
           Inl err \<Rightarrow> False
         | Inr (commit_date_map, w2) \<Rightarrow>
             w2 = ?wr \<and>
             log w2 = log w @ [Info_modifying_dates start_date end_date,
                               Warning_count_mismatch (length commits) (length random_dates)] \<and>
             dom commit_date_map = set commits \<and>
             (distinct commits \<longrightarrow>
                (\<forall>k<length commits. \<exists>v. ts (random_dates ! k) = Inr v
                                       \<and> commit_date_map (commits ! k) = Some v))"
    if gt: "length commits < length random_dates"
  proof -
    from fixed_fewer_commits [OF valid tsok g gt]
    obtain m where
      m: "commit_date_map_loop ts 0 commits random_dates Map.empty = Inr m"
      and t: "?X = Inr (m, ?wr)"
      and l: "log w1 @ [Warning_count_mismatch (length commits) (length random_dates)]
            = log w @ [Info_modifying_dates start_date end_date,
                       Warning_count_mismatch (length commits) (length random_dates)]"
      and d: "dom m = set commits"
      by blast
    have "\<exists>v. ts (random_dates ! k) = Inr v \<and> m (commits ! k) = Some v"
      if "distinct commits" and "k < length commits" for k
      using commit_date_map_loop_nth [OF m that(1) that(2)] that(2) gt by simp
    with l d show ?thesis by (simp add: t)
  qed
  from more fewer show ?thesis by blast
qed

theorem fixed_regenerates_or_discards_witness:
  "(1::int) \<le> 737425 \<and> (737425::int) < 737426 \<and> (737426::int) < 3652059 \<and>
   distinct [''a1'', ''b2'', ''c3''] \<and> distinct [''a1'', ''b2''] \<and>
   (0::nat) < length [''a1'', ''b2''] \<and>
   (case transfer_repo_dates_fixed timestamp_utc 737425 737426 2 [''a1'', ''b2'', ''c3'']
           \<lparr>rng = rng_of [3, 10, 0, 20, 3, 5], log = []\<rparr> of
      Inl err \<Rightarrow> False
    | Inr (commit_date_map, w2) \<Rightarrow> dom commit_date_map = {''a1'', ''b2'', ''c3''}) \<and>
   generate_random_date_range 737425 737426 3
     \<lparr>rng = rng_of [3, 10, 0, 20, 3, 5], log = [Info_modifying_dates 737425 737426]\<rparr>
     = Inr ([63713520020, 63713606405, 63713606410],
            \<lparr>rng = rng_of [3, 10, 0, 20, 3, 5], log = [Info_modifying_dates 737425 737426]\<rparr>
              \<lparr>rng := \<lambda>n. rng_of [3, 10, 0, 20, 3, 5] (n + 2 * nat 3)\<rparr>) \<and>
   length [''a1'', ''b2''] < length [63713520020, 63713606405, 63713606410 :: int] \<and>
   (case transfer_repo_dates_fixed timestamp_utc 737425 737426 3 [''a1'', ''b2'']
           \<lparr>rng = rng_of [3, 10, 0, 20, 3, 5], log = []\<rparr> of
      Inl err \<Rightarrow> False
    | Inr (commit_date_map, w2) \<Rightarrow>
        log w2 = [Info_modifying_dates 737425 737426, Warning_count_mismatch 2 3] \<and>
        dom commit_date_map = {''a1'', ''b2''} \<and>
        commit_date_map ''a1'' = Some 1577836820)"
proof -
  let ?R = "rng_of [3, 10, 0, 20, 3, 5]"
  let ?W = "\<lparr>rng = ?R, log = []\<rparr>"
  let ?V = "?W\<lparr>log := log ?W @ [Info_modifying_dates 737425 737426]\<rparr>"
  let ?c3 = "[''a1'', ''b2'', ''c3'']"
  let ?c2 = "[''a1'', ''b2'']"
  let ?rd = "[63713520020, 63713606405, 63713606410 :: int]"
  let ?w1 = "\<lparr>rng = ?R, log = [Info_modifying_dates 737425 737426]\<rparr>
               \<lparr>rng := \<lambda>n. ?R (n + 2 * nat 3)\<rparr>"
  let ?X3 = "transfer_repo_dates_fixed timestamp_utc 737425 737426 2 ?c3 ?W"
  let ?X2 = "transfer_repo_dates_fixed timestamp_utc 737425 737426 3 ?c2 ?W"
  have lo: "(1::int) \<le> 737425" and valid: "(737425::int) < 737426"
    and hi: "(737426::int) < 3652059" by simp_all
  have tsok: "\<forall>t. strptime 737425 \<le> t \<and> t \<le> strptime 737426 + 86400
                \<longrightarrow> (\<exists>v. timestamp_utc t = Inr v)"
    by (rule timestamp_utc_defined) (simp add: strptime_def)
  have d3: "distinct ?c3" and d2: "distinct ?c2" and k: "(0::nat) < length ?c2" by simp_all
  let ?rdA = "sort (map (candidate (strptime 737425) (strptime 737426 - strptime 737425) (rng ?V))
                      [0..<nat 2])"
  let ?w1A = "?V\<lparr>rng := \<lambda>n. rng ?V (n + 2 * nat 2)\<rparr>"
  have gA: "generate_random_date_range 737425 737426 2 ?V = Inr (?rdA, ?w1A)"
    by (rule generate_in_range [OF lo valid hi])
  have ltA: "length ?rdA < length ?c3" by simp
  note tA = fixed_regenerates_or_discards [OF lo valid hi tsok gA, of ?c3]
  note cA = conjunct1 [OF tA, THEN mp, OF ltA]
  obtain mA wA where xA: "?X3 = Inr (mA, wA)" and pA: "dom mA = set ?c3"
    using cA by (cases ?X3) (auto split: sum.splits prod.splits)
  have a: "case ?X3 of Inl err \<Rightarrow> False
      | Inr (commit_date_map, w2) \<Rightarrow> dom commit_date_map = {''a1'', ''b2'', ''c3''}"
    unfolding xA using pA by simp
  note ex = generate_example_log [of "[Info_modifying_dates 737425 737426]"]
  have w0: "?V = \<lparr>rng = ?R, log = [Info_modifying_dates 737425 737426]\<rparr>"
    by simp
  have gB: "generate_random_date_range 737425 737426 3 ?V = Inr (?rd, ?w1)"
    unfolding w0 by (rule ex)
  have gtB: "length ?c2 < length ?rd" by simp
  note tB = fixed_regenerates_or_discards [OF lo valid hi tsok gB, of ?c2]
  note cB = conjunct2 [OF tB, THEN mp, OF gtB]
  obtain mB wB where xB: "?X2 = Inr (mB, wB)"
    and lB: "log wB = log ?W @ [Info_modifying_dates 737425 737426,
                               Warning_count_mismatch (length ?c2) (length ?rd)]"
    and dB: "dom mB = set ?c2"
    and nB: "distinct ?c2 \<longrightarrow>
                (\<forall>k<length ?c2. \<exists>v. timestamp_utc (?rd ! k) = Inr v \<and> mB (?c2 ! k) = Some v)"
    using cB by (cases ?X2) (auto split: sum.splits prod.splits)
  from nB d2 k obtain v where "timestamp_utc (?rd ! 0) = Inr v" and "mB (?c2 ! 0) = Some v"
    by blast
  then have vB: "mB ''a1'' = Some 1577836820"
    by (simp add: timestamp_utc_def)
  have b: "case ?X2 of Inl err \<Rightarrow> False
      | Inr (commit_date_map, w2) \<Rightarrow>
          log w2 = [Info_modifying_dates 737425 737426, Warning_count_mismatch 2 3] \<and>
          dom commit_date_map = {''a1'', ''b2''} \<and>
          commit_date_map ''a1'' = Some 1577836820"
    unfolding xB using lB dB vB by simp
  from lo valid hi d3 d2 k a ex gtB b show ?thesis by blast
qed

end
